theory Spec2Isabelle
  imports Complex_Main "HOL-Library.Word"
begin

section \<open>Common types\<close>

text \<open>
  \<open>Index\<close> is the signed 64-bit integer type of the library.  An \<open>Index\<close> value is
  modelled as the \<open>int\<close> it denotes.  Two places depend on the machine width: the
  \<open>size_t\<close> product in \<open>Tile::_get_size\<close>, which is modelled on \<open>64 word\<close>, and the
  sums and differences of offsets and extents in \<open>copy_intersection_work\<close>, whose
  results are taken back into the 64-bit range with \<open>Index_wrap\<close> (two's complement,
  what the compiled code computes).  Positions inside vectors (loop counters used only
  as subscripts) are \<open>nat\<close>.
\<close>

type_synonym Index = int

definition is_Index :: "int \<Rightarrow> bool" where
  "is_Index x \<longleftrightarrow> - (2 ^ 63) \<le> x \<and> x < 2 ^ 63"

definition Index_wrap :: "int \<Rightarrow> Index" where
  "Index_wrap x = (x + 2 ^ 63) mod 2 ^ 64 - 2 ^ 63"

type_synonym Scalar = real

text \<open>
  \<open>RuntimeError msg\<close> is \<open>throw std::runtime_error(msg)\<close>.  An access outside a
  vector or a buffer is undefined behaviour in the source (the kernels are
  \<open>noexcept\<close>); the model makes it the value \<open>OutOfBounds\<close>.
\<close>

datatype error = RuntimeError string | OutOfBounds

datatype starpu_data_access_mode = STARPU_R | STARPU_W | STARPU_RW | STARPU_SCRATCH


section \<open>Tile geometry\<close>

text \<open>\<open>class TileTraits\<close>: its fields, as the sources under study read them.\<close>

record TileTraits =
  ndim :: nat
  shape :: "Index list"
  stride :: "Index list"
  nelems :: Index
  matrix_shape :: "(Index \<times> Index) list"

text \<open>
  Modelled from the spec: the constructor and the index conversions of \<open>TileTraits\<close>
  (\<open>include/nntile/tile/traits.hh\<close>) are not among the sources.  Section 3 fixes the
  stride as column-major, \<open>stride[0] = 1\<close> and \<open>stride[i] = stride[i-1] * shape[i-1]\<close>,
  and \<open>nelems\<close> as the product of the shape; section 4.1 fixes
  \<open>index_to_linear\<close> and \<open>linear_to_index\<close> as the standard column-major conversions.
\<close>

fun strides_from :: "Index \<Rightarrow> Index list \<Rightarrow> Index list" where
  "strides_from s [] = []"
| "strides_from s (n # ns) = s # strides_from (s * n) ns"

definition column_major_stride :: "Index list \<Rightarrow> Index list" where
  "column_major_stride shp = strides_from 1 shp"

definition index_to_linear :: "Index list \<Rightarrow> Index list \<Rightarrow> Index" where
  "index_to_linear strd index = (\<Sum>k<length index. index ! k * strd ! k)"

fun linear_to_index :: "Index list \<Rightarrow> Index \<Rightarrow> Index list" where
  "linear_to_index [] t = []"
| "linear_to_index (n # ns) t = (t mod n) # linear_to_index ns (t div n)"

definition matrix_shapes :: "Index list \<Rightarrow> (Index \<times> Index) list" where
  "matrix_shapes shp =
     map (\<lambda>i. (prod_list (take i shp), prod_list (drop i shp))) [0..<Suc (length shp)]"

definition make_TileTraits :: "Index list \<Rightarrow> TileTraits" where
  "make_TileTraits shp =
     \<lparr>ndim = length shp, shape = shp, stride = column_major_stride shp,
      nelems = prod_list shp, matrix_shape = matrix_shapes shp\<rparr>"


section \<open>Tile over a caller-provided buffer (include/nntile/tile/tile.hh)\<close>

text \<open>
  \<open>StarpuVariableHandle(ptr, size, mode)\<close> registers \<open>size\<close> bytes at \<open>ptr\<close>.
  \<open>size_t\<close> is taken as an unsigned 64-bit word.
\<close>

record StarpuVariableHandle =
  ptr :: nat
  nbytes :: "64 word"
  mode :: starpu_data_access_mode

record Tile = TileTraits +
  handle :: StarpuVariableHandle

text \<open>
  \<open>Tile::_get_size\<close>.  \<open>sizeof_T\<close> is \<open>sizeof(T)\<close> of the element type.  The
  comparison \<open>nelems > ptr_nelems\<close> is between two Index values; in
  \<open>nelems * sizeof(T)\<close> and in \<open>size / sizeof(T) != nelems\<close> the Index operand is
  converted to \<open>size_t\<close>, which is \<open>word_of_int\<close>.
\<close>

definition get_size :: "64 word \<Rightarrow> Index \<Rightarrow> Index \<Rightarrow> error + 64 word" where
  "get_size sizeof_T n_elems ptr_nelems =
     (if n_elems > ptr_nelems
      then Inl (RuntimeError ''Required memory size is larger than actually allocated memory'')
      else
        let sz = (word_of_int n_elems :: 64 word) * sizeof_T in
        if sz div sizeof_T \<noteq> word_of_int n_elems
        then Inl (RuntimeError ''Type size_t is not enough to hold size of provided buffer'')
        else Inr sz)"

text \<open>
  \<open>Tile(const TileTraits &traits, T *ptr, Index ptr_nelems)\<close>.  The second component is
  the list of handles registered so far: the handle constructor runs only after
  \<open>_get_size\<close> has returned.
\<close>

definition make_Tile :: "Index list \<Rightarrow> StarpuVariableHandle \<Rightarrow> Tile" where
  "make_Tile shp h = TileTraits.extend (make_TileTraits shp) \<lparr>handle = h\<rparr>"

definition Tile_of_buffer ::
  "64 word \<Rightarrow> TileTraits \<Rightarrow> nat \<Rightarrow> Index \<Rightarrow> StarpuVariableHandle list
     \<Rightarrow> (error + Tile) \<times> StarpuVariableHandle list" where
  "Tile_of_buffer sizeof_T traits p ptr_nelems registered =
     (case get_size sizeof_T (nelems traits) ptr_nelems of
        Inl e \<Rightarrow> (Inl e, registered)
      | Inr sz \<Rightarrow>
          let h = \<lparr>ptr = p, nbytes = sz, mode = STARPU_RW\<rparr> in
          (Inr (TileTraits.extend traits \<lparr>handle = h\<rparr>), registered @ [h]))"


section \<open>The task runtime, as its callers see it\<close>

text \<open>
  The task-graph runtime is an external collaborator.  What the sources under study do
  with it is call it; the model keeps the trace of these calls, in program order, and
  takes the return code of each enqueue from the environment: \<open>rets\<close> lists the codes
  that the coming calls of \<open>starpu_task_insert\<close> and \<open>starpu_data_cpy\<close> will return
  (zero once the list is exhausted).  An enqueue call is recorded with the code it
  returned; the task is in the task graph when that code is zero.
\<close>

text \<open>
  \<open>struct args_t\<close> of the LARS step, its fields in declaration order: \<open>num_iter\<close>,
  \<open>num_elems\<close>, \<open>num_steps\<close>, \<open>gamma_0\<close>, \<open>momentum\<close>, \<open>weight_decay\<close>,
  \<open>lars_coefficient\<close>.
\<close>

datatype args_t = Args Index Index Index Scalar Scalar Scalar Scalar

datatype codelet =
    codelet_copy_rw | codelet_copy_w | codelet_copy_ndim0
  | codelet_subcopy
  | codelet_fp32 | codelet_fp64 | codelet_fp32_fast_tf32 | codelet_bf16
  | codelet_fp32_fast_fp16 | codelet_fp32_fast_bf16

datatype 'h starpu_arg =
    STARPU_VALUE "Index list"
  | STARPU_BUFFER starpu_data_access_mode 'h
  | STARPU_FLOPS real
  | STARPU_CL_ARGS args_t

datatype 'h call =
    Task_insert codelet "'h starpu_arg list" int
  | Data_cpy 'h 'h int
  | Mpi_transfer 'h int int
  | Mpi_flush 'h

record 'h runtime =
  calls :: "'h call list"
  rets :: "int list"

definition next_ret :: "'h runtime \<Rightarrow> int" where
  "next_ret rt = (case rets rt of [] \<Rightarrow> 0 | r # _ \<Rightarrow> r)"

definition starpu_task_insert ::
  "codelet \<Rightarrow> 'h starpu_arg list \<Rightarrow> 'h runtime \<Rightarrow> int \<times> 'h runtime" where
  "starpu_task_insert cl args rt =
     (next_ret rt,
      \<lparr>calls = calls rt @ [Task_insert cl args (next_ret rt)], rets = tl (rets rt)\<rparr>)"

definition starpu_data_cpy :: "'h \<Rightarrow> 'h \<Rightarrow> 'h runtime \<Rightarrow> int \<times> 'h runtime" where
  "starpu_data_cpy dst_h src_h rt =
     (next_ret rt,
      \<lparr>calls = calls rt @ [Data_cpy dst_h src_h (next_ret rt)], rets = tl (rets rt)\<rparr>)"

text \<open>The calls that a function added to the trace.\<close>

definition new_calls :: "'h runtime \<Rightarrow> 'h runtime \<Rightarrow> 'h call list" where
  "new_calls rt rt' = drop (length (calls rt)) (calls rt')"

text \<open>The enqueue attempts among them.\<close>

fun is_submission :: "'h call \<Rightarrow> bool" where
  "is_submission (Task_insert cl args r) = True"
| "is_submission (Data_cpy d s r) = True"
| "is_submission (Mpi_transfer h d r) = False"
| "is_submission (Mpi_flush h) = False"


section \<open>Submitting the intersection copy (src/tile/copy.cc)\<close>

text \<open>
  The loop of \<open>copy_intersection_work\<close> over the axes.  Its state is the three local
  vectors and the flag, \<open>(src_start, dst_start, copy_shape, full_overwrite)\<close>; \<open>None\<close>
  is the \<open>return\<close> taken inside the loop when the tiles do not intersect on axis \<open>i\<close>.
  The local \<open>ndim\<close> is written \<open>nd\<close>.  Offsets and extents are \<open>Index\<close> values, and
  every sum and difference of the loop is an \<open>Index\<close> operation, hence \<open>Index_wrap\<close>.
\<close>

type_synonym intersection = "Index list \<times> Index list \<times> Index list \<times> bool"

fun intersect_axis ::
  "Index list \<Rightarrow> Index list \<Rightarrow> Index list \<Rightarrow> Index list \<Rightarrow> nat \<Rightarrow> intersection
     \<Rightarrow> intersection option" where
  "intersect_axis src_shape src_offset dst_shape dst_offset i
       (src_start, dst_start, copy_shape, full_overwrite) =
     (if Index_wrap (src_offset ! i + src_shape ! i) \<le> dst_offset ! i
         \<or> Index_wrap (dst_offset ! i + dst_shape ! i) \<le> src_offset ! i
      then None
      else
        let (src_start1, dst_start1, copy_shape1) =
          (if src_offset ! i < dst_offset ! i
           then
             let dst_start1 = dst_start[i := 0];
                 src_start1 = src_start[i := Index_wrap (dst_offset ! i - src_offset ! i)];
                 copy_shape1 = copy_shape[i := min (Index_wrap (src_shape ! i - src_start1 ! i))
                                                  (dst_shape ! i)]
             in (src_start1, dst_start1, copy_shape1)
           else
             let dst_start1 = dst_start[i := Index_wrap (src_offset ! i - dst_offset ! i)];
                 src_start1 = src_start[i := 0];
                 copy_shape1 = copy_shape[i := min (Index_wrap (dst_shape ! i - dst_start1 ! i))
                                                  (src_shape ! i)]
             in (src_start1, dst_start1, copy_shape1))
        in Some (src_start1, dst_start1, copy_shape1,
                 if copy_shape1 ! i \<noteq> dst_shape ! i then False else full_overwrite))"

function intersect_loop ::
  "nat \<Rightarrow> Index list \<Rightarrow> Index list \<Rightarrow> Index list \<Rightarrow> Index list \<Rightarrow> nat \<Rightarrow> intersection
     \<Rightarrow> intersection option" where
  "intersect_loop nd src_shape src_offset dst_shape dst_offset i st =
     (if i < nd
      then (case intersect_axis src_shape src_offset dst_shape dst_offset i st of
              None \<Rightarrow> None
            | Some st' \<Rightarrow> intersect_loop nd src_shape src_offset dst_shape dst_offset (i + 1) st')
      else Some st)"
  by pat_completeness auto
termination
  by (relation "measure (\<lambda>(nd, _, _, _, _, i, _). nd - i)") auto

definition copy_task_args ::
  "Tile \<Rightarrow> Tile \<Rightarrow> StarpuVariableHandle \<Rightarrow> Index list \<Rightarrow> Index list \<Rightarrow> Index list
     \<Rightarrow> starpu_data_access_mode \<Rightarrow> StarpuVariableHandle starpu_arg list" where
  "copy_task_args src dst scratch src_start copy_shape dst_start dst_mode =
     [STARPU_VALUE [int (ndim src)],
      STARPU_VALUE src_start,
      STARPU_VALUE (take (ndim src) (stride src)),
      STARPU_VALUE copy_shape,
      STARPU_VALUE dst_start,
      STARPU_VALUE (take (ndim src) (stride dst)),
      STARPU_BUFFER STARPU_R (handle src),
      STARPU_BUFFER dst_mode (handle dst),
      STARPU_BUFFER STARPU_SCRATCH scratch,
      STARPU_FLOPS 0]"

definition copy_intersection_work ::
  "Tile \<Rightarrow> Index list \<Rightarrow> Tile \<Rightarrow> Index list \<Rightarrow> StarpuVariableHandle
     \<Rightarrow> StarpuVariableHandle runtime \<Rightarrow> (error + unit) \<times> StarpuVariableHandle runtime" where
  "copy_intersection_work src src_offset dst dst_offset scratch rt =
     (if ndim src = 0
      then
        let (ret, rt') = starpu_task_insert codelet_copy_ndim0
              [STARPU_BUFFER STARPU_R (handle src), STARPU_BUFFER STARPU_W (handle dst),
               STARPU_FLOPS 0] rt
        in if ret \<noteq> 0 then (Inl (RuntimeError ''ret != 0''), rt') else (Inr (), rt')
      else
        case intersect_loop (ndim src) (shape src) src_offset (shape dst) dst_offset 0
               (replicate (ndim src) 0, replicate (ndim src) 0, replicate (ndim src) 0, True) of
          None \<Rightarrow> (Inr (), rt)
        | Some (src_start, dst_start, copy_shape, full_overwrite) \<Rightarrow>
            let (ret, rt') =
              (if full_overwrite
               then starpu_task_insert codelet_copy_w
                      (copy_task_args src dst scratch src_start copy_shape dst_start STARPU_W) rt
               else starpu_task_insert codelet_copy_rw
                      (copy_task_args src dst scratch src_start copy_shape dst_start STARPU_RW) rt)
            in if ret \<noteq> 0 then (Inl (RuntimeError ''ret != 0''), rt') else (Inr (), rt'))"


section \<open>The strided copy kernel (src/tile/copy.cc)\<close>

text \<open>
  \<open>cpu_copy_intersection_ndim0\<close>: \<open>*dst = *src\<close>.
\<close>

definition cpu_copy_intersection_ndim0 :: "'a list \<Rightarrow> 'a list \<Rightarrow> error + 'a list" where
  "cpu_copy_intersection_ndim0 src dst =
     (if src = [] \<or> dst = [] then Inl OutOfBounds else Inr (dst[0 := src ! 0]))"

text \<open>
  The state of \<open>cpu_copy_intersection\<close> inside its loops is
  \<open>(src_index, dst_index, src_offset, dst_offset, dst, visited)\<close>: the two halves of
  the scratch buffer, the two running offsets and the destination buffer.  The last
  component is a ghost: it records, in program order, the pair
  \<open>(src_offset, dst_offset)\<close> of every assignment \<open>dst[dst_offset] = src[src_offset]\<close>.
  The locals \<open>ndim\<close> and \<open>nelems\<close> are written \<open>nd\<close> and \<open>n_elems\<close>.
\<close>

type_synonym 'a copy_state =
  "Index list \<times> Index list \<times> Index \<times> Index \<times> 'a list \<times> (Index \<times> Index) list"

text \<open>\<open>dst[dst_offset] = src[src_offset]; ++src_offset; ++dst_offset;\<close>\<close>

fun assign :: "'a list \<Rightarrow> 'a copy_state \<Rightarrow> error + 'a copy_state" where
  "assign src (src_index, dst_index, src_offset, dst_offset, dst, visited) =
     (if 0 \<le> src_offset \<and> src_offset < int (length src)
         \<and> 0 \<le> dst_offset \<and> dst_offset < int (length dst)
      then Inr (src_index, dst_index, src_offset + 1, dst_offset + 1,
                dst[nat dst_offset := src ! nat src_offset],
                visited @ [(src_offset, dst_offset)])
      else Inl OutOfBounds)"

text \<open>
  The carry loop \<open>while(index[j] == start[j]+copy_shape[j])\<close>, written twice in the
  source, once for each side.  Each index vector has \<open>nd\<close> words: reading or
  incrementing \<open>index[j]\<close> with \<open>j = nd\<close> leaves it.
\<close>

function carry ::
  "nat \<Rightarrow> Index list \<Rightarrow> Index list \<Rightarrow> Index list \<Rightarrow> Index list \<times> Index \<Rightarrow> nat
     \<Rightarrow> error + (Index list \<times> Index)" where
  "carry nd start strd copy_shape (index, offset) j =
     (if nd \<le> j then Inl OutOfBounds
      else if index ! j = start ! j + copy_shape ! j
      then
        (if nd \<le> j + 1 then Inl OutOfBounds
         else carry nd start strd copy_shape
                (index[j := start ! j, j + 1 := index ! (j + 1) + 1],
                 offset + (strd ! (j + 1) - copy_shape ! j * strd ! j))
                (j + 1))
      else Inr (index, offset))"
  by pat_completeness auto
termination
  by (relation "measure (\<lambda>(nd, _, _, _, _, j). nd - j)") auto

text \<open>The body of the loop \<open>for(Index i = 1; i < nelems; ++i)\<close>.\<close>

fun copy_step ::
  "nat \<Rightarrow> Index list \<Rightarrow> Index list \<Rightarrow> Index list \<Rightarrow> Index list \<Rightarrow> Index list \<Rightarrow> 'a list
     \<Rightarrow> 'a copy_state \<Rightarrow> error + 'a copy_state" where
  "copy_step nd src_start src_stride copy_shape dst_start dst_stride src
       (src_index, dst_index, src_offset, dst_offset, dst, visited) =
     (case carry nd src_start src_stride copy_shape
             (src_index[0 := src_index ! 0 + 1], src_offset) 0 of
        Inl f \<Rightarrow> Inl f
      | Inr (src_index', src_offset') \<Rightarrow>
          (case carry nd dst_start dst_stride copy_shape
                  (dst_index[0 := dst_index ! 0 + 1], dst_offset) 0 of
             Inl f \<Rightarrow> Inl f
           | Inr (dst_index', dst_offset') \<Rightarrow>
               assign src (src_index', dst_index', src_offset', dst_offset', dst, visited)))"

function copy_loop ::
  "Index \<Rightarrow> Index \<Rightarrow> nat \<Rightarrow> Index list \<Rightarrow> Index list \<Rightarrow> Index list \<Rightarrow> Index list \<Rightarrow> Index list
     \<Rightarrow> 'a list \<Rightarrow> 'a copy_state \<Rightarrow> error + 'a copy_state" where
  "copy_loop i n_elems nd src_start src_stride copy_shape dst_start dst_stride src st =
     (if i < n_elems
      then (case copy_step nd src_start src_stride copy_shape dst_start dst_stride src st of
              Inl f \<Rightarrow> Inl f
            | Inr st' \<Rightarrow>
                copy_loop (i + 1) n_elems nd src_start src_stride copy_shape dst_start
                  dst_stride src st')
      else Inr st)"
  by pat_completeness auto
termination
  by (relation "measure (\<lambda>(i, n_elems, _). nat (n_elems - i))") auto

definition cpu_copy_intersection ::
  "nat \<Rightarrow> Index list \<Rightarrow> Index list \<Rightarrow> Index list \<Rightarrow> Index list \<Rightarrow> Index list
     \<Rightarrow> 'a list \<Rightarrow> 'a list \<Rightarrow> error + 'a copy_state" where
  "cpu_copy_intersection nd src_start src_stride copy_shape dst_start dst_stride src dst =
     (if nd = 0 then Inl OutOfBounds
      else
        let n_elems = fold (\<lambda>i n. n * copy_shape ! i) [0..<nd] 1;
            src_index = map (\<lambda>i. src_start ! i) [0..<nd];
            dst_index = map (\<lambda>i. dst_start ! i) [0..<nd];
            src_offset = fold (\<lambda>i off. off + src_start ! i * src_stride ! i) [1..<nd]
                           (src_start ! 0);
            dst_offset = fold (\<lambda>i off. off + dst_start ! i * dst_stride ! i) [1..<nd]
                           (dst_start ! 0)
        in case assign src (src_index, dst_index, src_offset, dst_offset, dst, []) of
             Inl f \<Rightarrow> Inl f
           | Inr st \<Rightarrow>
               copy_loop 1 n_elems nd src_start src_stride copy_shape dst_start dst_stride
                 src st)"

fun dst_of :: "'a copy_state \<Rightarrow> 'a list" where
  "dst_of (src_index, dst_index, src_offset, dst_offset, dst, visited) = dst"

fun visited_of :: "'a copy_state \<Rightarrow> (Index \<times> Index) list" where
  "visited_of (src_index, dst_index, src_offset, dst_offset, dst, visited) = visited"

text \<open>
  The naive per-element mapping, in the words of the specification: for the \<open>t\<close>-th
  multi-index \<open>p\<close> of the box \<open>[0, copy_shape)\<close> in column-major order,
  \<open>dst[index_to_linear(dst_start + p)] = src[index_to_linear(src_start + p)]\<close>.
\<close>

definition box_index :: "Index list \<Rightarrow> nat \<Rightarrow> Index list" where
  "box_index copy_shape t = linear_to_index copy_shape (int t)"

definition naive_offsets ::
  "Index list \<Rightarrow> Index list \<Rightarrow> Index list \<Rightarrow> Index list \<Rightarrow> Index list \<Rightarrow> nat
     \<Rightarrow> Index \<times> Index" where
  "naive_offsets src_start src_stride copy_shape dst_start dst_stride t =
     (index_to_linear src_stride (map2 (+) src_start (box_index copy_shape t)),
      index_to_linear dst_stride (map2 (+) dst_start (box_index copy_shape t)))"

definition naive_visits ::
  "Index list \<Rightarrow> Index list \<Rightarrow> Index list \<Rightarrow> Index list \<Rightarrow> Index list
     \<Rightarrow> (Index \<times> Index) list" where
  "naive_visits src_start src_stride copy_shape dst_start dst_stride =
     map (naive_offsets src_start src_stride copy_shape dst_start dst_stride)
       [0..<nat (prod_list copy_shape)]"

definition naive_copy ::
  "Index list \<Rightarrow> Index list \<Rightarrow> Index list \<Rightarrow> Index list \<Rightarrow> Index list
     \<Rightarrow> 'a list \<Rightarrow> 'a list \<Rightarrow> 'a list" where
  "naive_copy src_start src_stride copy_shape dst_start dst_stride src dst =
     fold (\<lambda>(so, do) d. d[nat do := src ! nat so])
       (naive_visits src_start src_stride copy_shape dst_start dst_stride) dst"


text \<open>
  What a worker does with an intersection-copy task: the three codelets of
  \<open>copy_intersection_work\<close> name their CPU function (\<open>.cpu_funcs\<close>), and
  \<open>cpu_copy_intersection\<close> reads its six arguments back with \<open>unpack_args_ptr\<close>.
  The result is the new content of the destination buffer.
\<close>

definition run_codelet ::
  "codelet \<Rightarrow> 'h starpu_arg list \<Rightarrow> 'a list \<Rightarrow> 'a list \<Rightarrow> error + 'a list" where
  "run_codelet cl args src dst =
     (if cl = codelet_copy_ndim0 then cpu_copy_intersection_ndim0 src dst
      else if cl = codelet_copy_rw \<or> cl = codelet_copy_w
      then (case args of
              STARPU_VALUE [nd] # STARPU_VALUE src_start # STARPU_VALUE src_stride
                # STARPU_VALUE copy_shape # STARPU_VALUE dst_start # STARPU_VALUE dst_stride
                # rest \<Rightarrow>
                (case cpu_copy_intersection (nat nd) src_start src_stride copy_shape
                        dst_start dst_stride src dst of
                   Inl f \<Rightarrow> Inl f
                 | Inr st \<Rightarrow> Inr (dst_of st))
            | _ \<Rightarrow> Inl OutOfBounds)
      else Inl OutOfBounds)"

text \<open>
  The tasks of a list of calls run in submission order on the destination buffer (they
  all write the same handle, so the runtime serialises them); a call that did not
  enqueue a task changes nothing.
\<close>

fun run_call :: "'a list \<Rightarrow> 'h call \<Rightarrow> error + 'a list \<Rightarrow> error + 'a list" where
  "run_call src c (Inl f) = Inl f"
| "run_call src (Task_insert cl args r) (Inr dst) =
     (if r = 0 then run_codelet cl args src dst else Inr dst)"
| "run_call src c (Inr dst) = Inr dst"

definition run_calls :: "'h call list \<Rightarrow> 'a list \<Rightarrow> 'a list \<Rightarrow> error + 'a list" where
  "run_calls cs src dst = fold (run_call src) cs (Inr dst)"


section \<open>Closed forms used in the statements\<close>

text \<open>
  The test of \<open>copy_intersection_work\<close> on one axis, and the three values it computes
  there, written without the loop, with the 64-bit operations of the source.
\<close>

definition separated ::
  "Index list \<Rightarrow> Index list \<Rightarrow> Index list \<Rightarrow> Index list \<Rightarrow> nat \<Rightarrow> bool" where
  "separated src_shape src_offset dst_shape dst_offset k \<longleftrightarrow>
     Index_wrap (src_offset ! k + src_shape ! k) \<le> dst_offset ! k
     \<or> Index_wrap (dst_offset ! k + dst_shape ! k) \<le> src_offset ! k"

definition axis_src_start :: "Index list \<Rightarrow> Index list \<Rightarrow> nat \<Rightarrow> Index" where
  "axis_src_start src_offset dst_offset k =
     (if src_offset ! k < dst_offset ! k
      then Index_wrap (dst_offset ! k - src_offset ! k) else 0)"

definition axis_dst_start :: "Index list \<Rightarrow> Index list \<Rightarrow> nat \<Rightarrow> Index" where
  "axis_dst_start src_offset dst_offset k =
     (if src_offset ! k < dst_offset ! k
      then 0 else Index_wrap (src_offset ! k - dst_offset ! k))"

definition axis_copy_shape ::
  "Index list \<Rightarrow> Index list \<Rightarrow> Index list \<Rightarrow> Index list \<Rightarrow> nat \<Rightarrow> Index" where
  "axis_copy_shape src_shape src_offset dst_shape dst_offset k =
     (if src_offset ! k < dst_offset ! k
      then min (Index_wrap (src_shape ! k - axis_src_start src_offset dst_offset k))
               (dst_shape ! k)
      else min (Index_wrap (dst_shape ! k - axis_dst_start src_offset dst_offset k))
               (src_shape ! k))"

text \<open>
  A tile whose extent, offset and interval end on axis \<open>k\<close> are \<open>Index\<close> values: its
  interval \<open>[offset, offset + extent)\<close> lies in the 64-bit range, so that the sums of
  the source do not overflow.
\<close>

definition in_Index_range :: "Index list \<Rightarrow> Index list \<Rightarrow> nat \<Rightarrow> bool" where
  "in_Index_range shp offset k \<longleftrightarrow>
     is_Index (shp ! k) \<and> is_Index (offset ! k) \<and> is_Index (offset ! k + shp ! k)"

text \<open>The interval \<open>[offset, offset + extent)\<close> of a tile on one axis.\<close>

definition axis_interval :: "Index list \<Rightarrow> Index list \<Rightarrow> nat \<Rightarrow> Index set" where
  "axis_interval shp offset k = {offset ! k ..< offset ! k + shp ! k}"

definition vectors_sized :: "nat \<Rightarrow> intersection \<Rightarrow> bool" where
  "vectors_sized nd st \<longleftrightarrow>
     (case st of (src_start, dst_start, copy_shape, full_overwrite) \<Rightarrow>
        length src_start = nd \<and> length dst_start = nd \<and> length copy_shape = nd)"

text \<open>A multi-index of the box \<open>[0, shp)\<close>.\<close>

definition in_box :: "Index list \<Rightarrow> Index list \<Rightarrow> bool" where
  "in_box shp p \<longleftrightarrow> length p = length shp \<and> (\<forall>k<length shp. 0 \<le> p ! k \<and> p ! k < shp ! k)"

text \<open>
  One side of a copy: a buffer of \<open>len\<close> elements laid out column-major with shape
  \<open>shp\<close>, and a start vector that keeps the box inside the shape.
\<close>

definition side_ok ::
  "nat \<Rightarrow> Index list \<Rightarrow> Index list \<Rightarrow> Index list \<Rightarrow> Index list \<Rightarrow> nat \<Rightarrow> bool" where
  "side_ok nd shp start strd copy_shape len \<longleftrightarrow>
     length shp = nd \<and> length start = nd \<and> strd = column_major_stride shp
     \<and> (\<forall>k<nd. 0 \<le> start ! k \<and> start ! k + copy_shape ! k \<le> shp ! k)
     \<and> int len = prod_list shp"

definition write_elem :: "'a list \<Rightarrow> Index \<times> Index \<Rightarrow> 'a list \<Rightarrow> 'a list" where
  "write_elem src = (\<lambda>(so, do) d. d[nat do := src ! nat so])"

text \<open>The state of the kernel after \<open>t\<close> assignments, written without the loops.\<close>

definition state_at ::
  "Index list \<Rightarrow> Index list \<Rightarrow> Index list \<Rightarrow> Index list \<Rightarrow> Index list \<Rightarrow> 'a list \<Rightarrow> 'a list
     \<Rightarrow> nat \<Rightarrow> 'a copy_state" where
  "state_at src_start src_stride copy_shape dst_start dst_stride src dst t =
     (map2 (+) src_start (box_index copy_shape (t - 1)),
      map2 (+) dst_start (box_index copy_shape (t - 1)),
      fst (naive_offsets src_start src_stride copy_shape dst_start dst_stride (t - 1)) + 1,
      snd (naive_offsets src_start src_stride copy_shape dst_start dst_stride (t - 1)) + 1,
      fold (write_elem src)
        (map (naive_offsets src_start src_stride copy_shape dst_start dst_stride) [0..<t]) dst,
      map (naive_offsets src_start src_stride copy_shape dst_start dst_stride) [0..<t])"


section \<open>The LARS step (src/starpu/lars_tiled_step.cc, src/tensor/lars_tiled_step.cc)\<close>

text \<open>
  Tile handles of the tensor layer carry the rank of the node that owns them
  (\<open>mpi_get_rank\<close>); \<open>VariableHandle size mode\<close> is a buffer allocated by the runtime.
\<close>

datatype Handle = TileHandle nat int | VariableHandle Index starpu_data_access_mode

fun mpi_get_rank :: "Handle \<Rightarrow> int" where
  "mpi_get_rank (TileHandle tag rank) = rank"
| "mpi_get_rank (VariableHandle sz m) = 0"

text \<open>
  \<open>mpi_transfer\<close> and \<open>mpi_flush\<close> are recorded as calls; what the data-movement
  layer does with them is outside the sources under study.
\<close>

definition mpi_transfer :: "Handle \<Rightarrow> int \<Rightarrow> int \<Rightarrow> Handle runtime \<Rightarrow> Handle runtime" where
  "mpi_transfer h dst_rank mpi_rank rt = rt\<lparr>calls := calls rt @ [Mpi_transfer h dst_rank mpi_rank]\<rparr>"

definition mpi_flush :: "Handle \<Rightarrow> Handle runtime \<Rightarrow> Handle runtime" where
  "mpi_flush h rt = rt\<lparr>calls := calls rt @ [Mpi_flush h]\<rparr>"

record TensorTraits = TileTraits +
  basetile_shape :: "Index list"
  leftover_shape :: "Index list"
  grid :: TileTraits

record Tensor = TensorTraits +
  tile_handles :: "Handle list"

text \<open>
  Modelled from the spec: \<open>get_tile_shape\<close>, \<open>get_tile_traits\<close> and
  \<open>get_tile_handle\<close> of the tensor classes (\<open>include/nntile/tensor/traits.hh\<close>,
  \<open>tensor.hh\<close>) are not among the sources.  Section 4.1: the shape of the tile at a
  grid index is \<open>basetile_shape[i]\<close> per axis, unless the index is the last one of the
  grid on that axis, where it is \<open>shape[i] - basetile_shape[i] * (grid.shape[i] - 1)\<close>;
  section 3: a tensor holds one tile handle for every linear tile index.
\<close>

definition get_tile_shape :: "'a TensorTraits_scheme \<Rightarrow> Index list \<Rightarrow> Index list" where
  "get_tile_shape t index =
     map (\<lambda>k. if index ! k = shape (grid t) ! k - 1
              then shape t ! k - basetile_shape t ! k * (shape (grid t) ! k - 1)
              else basetile_shape t ! k) [0..<ndim t]"

definition get_tile_traits :: "'a TensorTraits_scheme \<Rightarrow> Index \<Rightarrow> TileTraits" where
  "get_tile_traits t i = make_TileTraits (get_tile_shape t (linear_to_index (shape (grid t)) i))"

definition get_tile_handle :: "Tensor \<Rightarrow> Index \<Rightarrow> Handle" where
  "get_tile_handle t i = tile_handles t ! nat i"

text \<open>The element types for which the LARS step is instantiated, and \<open>codelet<T>()\<close>.\<close>

datatype elem_type =
  fp32_t | fp64_t | fp32_fast_tf32_t | fp32_fast_fp16_t | fp32_fast_bf16_t | bf16_t

fun codelet_of :: "elem_type \<Rightarrow> codelet" where
  "codelet_of fp32_t = codelet_fp32"
| "codelet_of bf16_t = codelet_bf16"
| "codelet_of fp32_fast_tf32_t = codelet_fp32_fast_tf32"
| "codelet_of fp32_fast_fp16_t = codelet_fp32_fast_fp16"
| "codelet_of fp32_fast_bf16_t = codelet_fp32_fast_bf16"
| "codelet_of fp64_t = codelet_fp64"

text \<open>\<open>starpu::lars_tiled_step::submit<T>\<close>\<close>

definition submit ::
  "elem_type \<Rightarrow> Index \<Rightarrow> Index \<Rightarrow> Index \<Rightarrow> Scalar \<Rightarrow> Scalar \<Rightarrow> Scalar \<Rightarrow> Scalar
     \<Rightarrow> Handle \<Rightarrow> Handle \<Rightarrow> Handle \<Rightarrow> Handle runtime \<Rightarrow> (error + unit) \<times> Handle runtime" where
  "submit T num_iter num_elems num_steps gamma_0 momentum weight_decay lars_coefficient
       grad momentum_buffer p rt =
     (let args = Args num_iter num_elems num_steps gamma_0 momentum weight_decay
                   lars_coefficient;
          moments_mode = (if num_iter = 1 then STARPU_W else STARPU_RW);
          (ret, rt') = starpu_task_insert (codelet_of T)
                         [STARPU_BUFFER STARPU_R grad,
                          STARPU_BUFFER moments_mode momentum_buffer,
                          STARPU_BUFFER STARPU_RW p,
                          STARPU_CL_ARGS args] rt
      in if ret \<noteq> 0
         then (Inl (RuntimeError ''Error in lars_tiled_step task submission''), rt')
         else (Inr (), rt'))"

text \<open>
  The loop of \<open>lars_tiled_step_async\<close> over the tiles of \<open>p\<close>; \<open>mpi_rank\<close> is
  \<open>starpu_mpi_world_rank()\<close>.
\<close>

function lars_loop ::
  "elem_type \<Rightarrow> int \<Rightarrow> Index \<Rightarrow> Index \<Rightarrow> Scalar \<Rightarrow> Scalar \<Rightarrow> Scalar \<Rightarrow> Scalar
     \<Rightarrow> Tensor \<Rightarrow> Tensor \<Rightarrow> Tensor \<Rightarrow> Index \<Rightarrow> Handle runtime
     \<Rightarrow> (error + unit) \<times> Handle runtime" where
  "lars_loop T mpi_rank num_iter num_steps gamma_0 momentum weight_decay lars_coefficient
       grad momentum_buffer p i rt =
     (if i < nelems (grid p)
      then
        let p_tile_handle = get_tile_handle p i;
            grad_tile_handle = get_tile_handle grad i;
            momentum_buffer_tile_handle = get_tile_handle momentum_buffer i;
            p_tile_rank = mpi_get_rank p_tile_handle;
            rt1 = mpi_transfer grad_tile_handle p_tile_rank mpi_rank rt;
            rt2 = mpi_transfer momentum_buffer_tile_handle p_tile_rank mpi_rank rt1
        in (case (if mpi_rank = p_tile_rank
                  then submit T num_iter (nelems (get_tile_traits p i)) num_steps gamma_0
                         momentum weight_decay lars_coefficient grad_tile_handle
                         momentum_buffer_tile_handle p_tile_handle rt2
                  else (Inr (), rt2)) of
              (Inl e, rt3) \<Rightarrow> (Inl e, rt3)
            | (Inr u, rt3) \<Rightarrow>
                lars_loop T mpi_rank num_iter num_steps gamma_0 momentum weight_decay
                  lars_coefficient grad momentum_buffer p (i + 1)
                  (mpi_flush p_tile_handle rt3))
      else (Inr (), rt))"
  by pat_completeness auto
termination
  by (relation "measure (\<lambda>(T, r, ni, ns, g, m, w, l, grad, mb, p, i, rt).
                           nat (nelems (grid p) - i))") auto

definition lars_tiled_step_async ::
  "elem_type \<Rightarrow> int \<Rightarrow> Index \<Rightarrow> Index \<Rightarrow> Scalar \<Rightarrow> Scalar \<Rightarrow> Scalar \<Rightarrow> Scalar
     \<Rightarrow> Tensor \<Rightarrow> Tensor \<Rightarrow> Tensor \<Rightarrow> Handle runtime
     \<Rightarrow> (error + unit) \<times> Handle runtime" where
  "lars_tiled_step_async T mpi_rank num_iter num_steps gamma_0 momentum weight_decay
       lars_coefficient grad momentum_buffer p rt =
     (if matrix_shape p \<noteq> matrix_shape grad
      then (Inl (RuntimeError ''Parameter shape is not equal to gradient shape''), rt)
      else if matrix_shape p \<noteq> matrix_shape momentum_buffer
      then (Inl (RuntimeError ''Parameter shape is not equal to momentum_buffer shape''), rt)
      else lars_loop T mpi_rank num_iter num_steps gamma_0 momentum weight_decay
             lars_coefficient grad momentum_buffer p 0 rt)"


section \<open>Gather (src/tensor/gather.cc)\<close>

text \<open>
  Modelled from the spec: \<open>starpu::subcopy::submit\<close> (\<open>src/starpu/subcopy.cc\<close>) is not
  among the sources.  Section 4.4, step 6: it submits one task carrying the
  dimensionality, the start, stride and shape vectors of both sides and the scratch
  buffer; section 4.2: \<open>submit\<close> fails if the enqueue reports failure.
\<close>

definition subcopy_submit ::
  "nat \<Rightarrow> Index list \<Rightarrow> Index list \<Rightarrow> Index list \<Rightarrow> Index list \<Rightarrow> Index list
     \<Rightarrow> Handle \<Rightarrow> Handle \<Rightarrow> Handle \<Rightarrow> starpu_data_access_mode \<Rightarrow> Handle runtime
     \<Rightarrow> (error + unit) \<times> Handle runtime" where
  "subcopy_submit nd src_start src_stride dst_start dst_stride copy_shape src dst scratch
       dst_mode rt =
     (let (ret, rt') = starpu_task_insert codelet_subcopy
                         [STARPU_VALUE [int nd],
                          STARPU_VALUE src_start, STARPU_VALUE src_stride,
                          STARPU_VALUE dst_start, STARPU_VALUE dst_stride,
                          STARPU_VALUE copy_shape,
                          STARPU_BUFFER STARPU_R src,
                          STARPU_BUFFER dst_mode dst,
                          STARPU_BUFFER STARPU_SCRATCH scratch] rt
      in if ret \<noteq> 0
         then (Inl (RuntimeError ''Error in subcopy task submission''), rt')
         else (Inr (), rt'))"

text \<open>
  The carry loop \<open>while(src_tile_index[k] == src.grid.shape[k])\<close> of \<open>gather_async\<close>;
  the index vector has \<open>nd\<close> entries.
\<close>

function tile_carry :: "nat \<Rightarrow> Index list \<Rightarrow> Index list \<Rightarrow> nat \<Rightarrow> error + Index list" where
  "tile_carry nd grid_shape src_tile_index k =
     (if nd \<le> k then Inl OutOfBounds
      else if src_tile_index ! k = grid_shape ! k
      then
        (if nd \<le> k + 1 then Inl OutOfBounds
         else tile_carry nd grid_shape
                (src_tile_index[k := 0, k + 1 := src_tile_index ! (k + 1) + 1]) (k + 1))
      else Inr src_tile_index)"
  by pat_completeness auto
termination
  by (relation "measure (\<lambda>(nd, _, _, k). nd - k)") auto

text \<open>
  The loop \<open>for(Index i = 1; i < src.grid.nelems; ++i)\<close>.  Its state is
  \<open>(src_tile_index, dst_tile_start)\<close> and the runtime.
\<close>

function gather_loop ::
  "int \<Rightarrow> Tensor \<Rightarrow> Handle \<Rightarrow> TileTraits \<Rightarrow> int \<Rightarrow> Handle \<Rightarrow> Index list \<Rightarrow> Index
     \<Rightarrow> Index list \<times> Index list \<Rightarrow> Handle runtime
     \<Rightarrow> (error + Index list \<times> Index list) \<times> Handle runtime" where
  "gather_loop mpi_rank src dst_tile_handle dst_tile_traits dst_tile_rank scratch
       src_tile_start i (src_tile_index, dst_tile_start) rt =
     (if i < nelems (grid src)
      then
        (case tile_carry (ndim src) (shape (grid src))
                (src_tile_index[0 := src_tile_index ! 0 + 1]) 0 of
           Inl e \<Rightarrow> (Inl e, rt)
         | Inr src_tile_index' \<Rightarrow>
             let src_tile_handle = get_tile_handle src i;
                 rt1 = mpi_transfer src_tile_handle dst_tile_rank mpi_rank rt
             in if mpi_rank = dst_tile_rank
                then
                  let src_tile_traits = get_tile_traits src i;
                      dst_tile_start' =
                        fold (\<lambda>k d. d[k := src_tile_index' ! k * basetile_shape src ! k])
                          [0..<ndim src] dst_tile_start
                  in (case subcopy_submit (ndim src) src_tile_start (stride src_tile_traits)
                             dst_tile_start' (stride dst_tile_traits) (shape src_tile_traits)
                             src_tile_handle dst_tile_handle scratch STARPU_RW rt1 of
                        (Inl e, rt2) \<Rightarrow> (Inl e, rt2)
                      | (Inr u, rt2) \<Rightarrow>
                          gather_loop mpi_rank src dst_tile_handle dst_tile_traits
                            dst_tile_rank scratch src_tile_start (i + 1)
                            (src_tile_index', dst_tile_start') rt2)
                else gather_loop mpi_rank src dst_tile_handle dst_tile_traits dst_tile_rank
                       scratch src_tile_start (i + 1) (src_tile_index', dst_tile_start) rt1)
      else (Inr (src_tile_index, dst_tile_start), rt))"
  by pat_completeness auto
termination
  by (relation "measure (\<lambda>(r, src, h, t, dr, sc, ss, i, st, rt). nat (nelems (grid src) - i))")
    auto

text \<open>\<open>gather_async\<close>; \<open>sizeof(Index)\<close> is 8.\<close>

definition gather_async ::
  "int \<Rightarrow> Tensor \<Rightarrow> Tensor \<Rightarrow> Handle runtime \<Rightarrow> (error + unit) \<times> Handle runtime" where
  "gather_async mpi_rank src dst rt =
     (if nelems (grid dst) \<noteq> 1
      then (Inl (RuntimeError ''Destination must be a single-tiled tensor''), rt)
      else if shape src \<noteq> shape dst
      then (Inl (RuntimeError ''src.shape != dst.shape''), rt)
      else
        let dst_tile_handle = get_tile_handle dst 0;
            dst_tile_traits = get_tile_traits dst 0;
            dst_tile_rank = mpi_get_rank dst_tile_handle
        in if nelems (grid src) = 1
           then
             let src_tile_handle = get_tile_handle src 0;
                 rt1 = mpi_transfer src_tile_handle dst_tile_rank mpi_rank rt
             in if mpi_rank = dst_tile_rank
                then
                  let (ret, rt2) = starpu_data_cpy dst_tile_handle src_tile_handle rt1
                  in if ret \<noteq> 0
                     then (Inl (RuntimeError ''Error in starpu_data_cpy''), rt2)
                     else (Inr (), mpi_flush dst_tile_handle rt2)
                else (Inr (), mpi_flush dst_tile_handle rt1)
           else
             let scratch = VariableHandle (2 * int (ndim src) * 8) STARPU_SCRATCH;
                 src_tile_start = replicate (ndim src) 0;
                 dst_tile_start = replicate (ndim src) 0;
                 src_tile_index = replicate (ndim src) 0;
                 src_first_tile_handle = get_tile_handle src 0;
                 rt1 = mpi_transfer src_first_tile_handle dst_tile_rank mpi_rank rt
             in (case (if mpi_rank = dst_tile_rank
                       then
                         let src_first_tile_traits = get_tile_traits src 0
                         in subcopy_submit (ndim src) src_tile_start
                              (stride src_first_tile_traits) dst_tile_start
                              (stride dst_tile_traits) (shape src_first_tile_traits)
                              src_first_tile_handle dst_tile_handle scratch STARPU_W rt1
                       else (Inr (), rt1)) of
                   (Inl e, rt2) \<Rightarrow> (Inl e, rt2)
                 | (Inr u, rt2) \<Rightarrow>
                     (case gather_loop mpi_rank src dst_tile_handle dst_tile_traits
                             dst_tile_rank scratch src_tile_start 1
                             (src_tile_index, dst_tile_start) rt2 of
                        (Inl e, rt3) \<Rightarrow> (Inl e, rt3)
                      | (Inr st, rt3) \<Rightarrow> (Inr (), mpi_flush dst_tile_handle rt3))))"


section \<open>Max and sum of exponents (src/kernel/maxsumexp/cpu.cc)\<close>

text \<open>
  The kernel is a template over the floating-point type \<open>T\<close>.  Its arithmetic is a
  parameter of the model: the operations the kernel applies to values of \<open>T\<close>
  (\<open>std::isinf\<close>, \<open><\<close>, \<open>==\<close>, \<open>+\<close>, \<open>-\<close>, \<open>*\<close>, \<open>std::exp\<close>) and the constants
  \<open>zero\<close> and \<open>one\<close>.  Nothing is assumed about rounding.
\<close>

record 'a arith =
  fp_isinf :: "'a \<Rightarrow> bool"
  fp_less :: "'a \<Rightarrow> 'a \<Rightarrow> bool"
  fp_eq :: "'a \<Rightarrow> 'a \<Rightarrow> bool"
  fp_add :: "'a \<Rightarrow> 'a \<Rightarrow> 'a"
  fp_sub :: "'a \<Rightarrow> 'a \<Rightarrow> 'a"
  fp_mul :: "'a \<Rightarrow> 'a \<Rightarrow> 'a"
  fp_exp :: "'a \<Rightarrow> 'a"
  fp_zero :: 'a
  fp_one :: 'a

text \<open>
  The body of the innermost loop on one value, after the test \<open>std::isinf(val)\<close>: the
  update of the running \<open>max\<close> and \<open>sum\<close> (written \<open>maxv\<close>, \<open>sumv\<close>).
\<close>

fun update_max_sum :: "'a arith \<Rightarrow> 'a \<Rightarrow> 'a \<times> 'a \<Rightarrow> 'a \<times> 'a" where
  "update_max_sum A val (maxv, sumv) =
     (if fp_less A maxv val
      then (val, fp_add A (fp_mul A sumv (fp_exp A (fp_sub A maxv val))) (fp_one A))
      else (maxv, fp_add A sumv (fp_exp A (fp_sub A val maxv))))"

text \<open>
  \<open>for(Index i0 = 1; i0 < k; ++i0)\<close> over \<open>src_slice[i0*m]\<close>, where \<open>src_slice\<close> is
  \<open>src + slice_base\<close>.
\<close>

function slice_loop ::
  "'a arith \<Rightarrow> Index \<Rightarrow> Index \<Rightarrow> 'a list \<Rightarrow> Index \<Rightarrow> Index \<Rightarrow> 'a \<times> 'a \<Rightarrow> error + 'a \<times> 'a" where
  "slice_loop A m k src slice_base i0 st =
     (if i0 < k
      then
        let pos = slice_base + i0 * m
        in if pos < 0 \<or> int (length src) \<le> pos then Inl OutOfBounds
           else
             let val = src ! nat pos
             in if fp_isinf A val
                then slice_loop A m k src slice_base (i0 + 1) st
                else slice_loop A m k src slice_base (i0 + 1) (update_max_sum A val st)
      else Inr st)"
  by pat_completeness auto
termination
  by (relation "measure (\<lambda>(A, m, k, src, b, i0, st). nat (k - i0))") auto

text \<open>\<open>// Save result, do nothing if all elements are masked out\<close>\<close>

fun save_result :: "'a arith \<Rightarrow> 'a \<times> 'a \<Rightarrow> Index \<Rightarrow> 'a list \<Rightarrow> error + 'a list" where
  "save_result A (maxv, sumv) dst_offset maxsumexp =
     (if fp_isinf A maxv then Inr maxsumexp
      else if dst_offset < 0 \<or> int (length maxsumexp) \<le> dst_offset + 1 then Inl OutOfBounds
      else
        let sum_old = maxsumexp ! nat (dst_offset + 1)
        in if fp_eq A sum_old (fp_zero A)
           then Inr (maxsumexp[nat dst_offset := maxv, nat (dst_offset + 1) := sumv])
           else
             let max_old = maxsumexp ! nat dst_offset
             in if fp_less A max_old maxv
                then Inr (maxsumexp
                       [nat dst_offset := maxv,
                        nat (dst_offset + 1) :=
                          fp_add A (fp_mul A sum_old (fp_exp A (fp_sub A max_old maxv))) sumv])
                else Inr (maxsumexp
                       [nat (dst_offset + 1) :=
                          fp_add A (fp_mul A sumv (fp_exp A (fp_sub A maxv max_old))) sum_old]))"

text \<open>The body of the loop over \<open>i1\<close>: one slice.\<close>

definition slice_body ::
  "'a arith \<Rightarrow> Index \<Rightarrow> Index \<Rightarrow> 'a list \<Rightarrow> Index \<Rightarrow> Index \<Rightarrow> Index \<Rightarrow> 'a list
     \<Rightarrow> error + 'a list" where
  "slice_body A m k src i2 i1 dst_offset maxsumexp =
     (let slice_base = i2 * (m * k) + i1
      in if slice_base < 0 \<or> int (length src) \<le> slice_base then Inl OutOfBounds
         else
           (case slice_loop A m k src slice_base 1 (src ! nat slice_base, fp_one A) of
              Inl e \<Rightarrow> Inl e
            | Inr st \<Rightarrow> save_result A st dst_offset maxsumexp))"

function i1_loop ::
  "'a arith \<Rightarrow> Index \<Rightarrow> Index \<Rightarrow> 'a list \<Rightarrow> Index \<Rightarrow> Index \<Rightarrow> Index \<times> 'a list
     \<Rightarrow> error + Index \<times> 'a list" where
  "i1_loop A m k src i2 i1 (dst_offset, maxsumexp) =
     (if i1 < m
      then (case slice_body A m k src i2 i1 dst_offset maxsumexp of
              Inl e \<Rightarrow> Inl e
            | Inr maxsumexp' \<Rightarrow> i1_loop A m k src i2 (i1 + 1) (dst_offset + 2, maxsumexp'))
      else Inr (dst_offset, maxsumexp))"
  by pat_completeness auto
termination
  by (relation "measure (\<lambda>(A, m, k, src, i2, i1, st). nat (m - i1))") auto

function i2_loop ::
  "'a arith \<Rightarrow> Index \<Rightarrow> Index \<Rightarrow> Index \<Rightarrow> 'a list \<Rightarrow> Index \<Rightarrow> Index \<times> 'a list
     \<Rightarrow> error + Index \<times> 'a list" where
  "i2_loop A m n k src i2 st =
     (if i2 < n
      then (case i1_loop A m k src i2 0 st of
              Inl e \<Rightarrow> Inl e
            | Inr st' \<Rightarrow> i2_loop A m n k src (i2 + 1) st')
      else Inr st)"
  by pat_completeness auto
termination
  by (relation "measure (\<lambda>(A, m, n, k, src, i2, st). nat (n - i2))") auto

text \<open>\<open>kernel::maxsumexp::cpu<T>(m, n, k, src, maxsumexp)\<close>\<close>

definition cpu :: "'a arith \<Rightarrow> Index \<Rightarrow> Index \<Rightarrow> Index \<Rightarrow> 'a list \<Rightarrow> 'a list \<Rightarrow> error + 'a list" where
  "cpu A m n k src maxsumexp =
     (case i2_loop A m n k src 0 (0, maxsumexp) of
        Inl e \<Rightarrow> Inl e
      | Inr (dst_offset, maxsumexp') \<Rightarrow> Inr maxsumexp')"

text \<open>
  The terms of the claim about masking.  The slice \<open>(i1, i2)\<close> of the input, as the
  list of its \<open>k\<close> values along the middle axis; the pair (maximum, sum of exponents)
  computed over a sequence of values by the kernel's own update, with no masking; and
  the accumulation of such a pair into the old pair of the output.
\<close>

definition slice_values :: "'a list \<Rightarrow> Index \<Rightarrow> Index \<Rightarrow> Index \<Rightarrow> Index \<Rightarrow> 'a list" where
  "slice_values src m k i1 i2 =
     map (\<lambda>i0. src ! nat (i2 * (m * k) + i1 + int i0 * m)) [0..<nat k]"

definition max_sumexp :: "'a arith \<Rightarrow> 'a list \<Rightarrow> 'a \<times> 'a" where
  "max_sumexp A vals = fold (update_max_sum A) (tl vals) (hd vals, fp_one A)"

fun accumulate :: "'a arith \<Rightarrow> 'a \<times> 'a \<Rightarrow> 'a \<times> 'a \<Rightarrow> 'a \<times> 'a" where
  "accumulate A (maxv, sumv) (max_old, sum_old) =
     (if fp_eq A sum_old (fp_zero A) then (maxv, sumv)
      else if fp_less A max_old maxv
      then (maxv, fp_add A (fp_mul A sum_old (fp_exp A (fp_sub A max_old maxv))) sumv)
      else (max_old, fp_add A (fp_mul A sumv (fp_exp A (fp_sub A maxv max_old))) sum_old))"

text \<open>
  An instance of the arithmetic, for the concrete runs below: the reals extended with
  the two infinities and NaN, with the IEEE 754 rules for the special values and exact
  arithmetic on the finite ones.
\<close>

datatype xreal = NInf | Fin real | PInf | NaN

fun xneg :: "xreal \<Rightarrow> xreal" where
  "xneg NInf = PInf"
| "xneg PInf = NInf"
| "xneg (Fin a) = Fin (- a)"
| "xneg NaN = NaN"

fun xadd :: "xreal \<Rightarrow> xreal \<Rightarrow> xreal" where
  "xadd NaN y = NaN"
| "xadd x NaN = NaN"
| "xadd (Fin a) (Fin b) = Fin (a + b)"
| "xadd PInf NInf = NaN"
| "xadd NInf PInf = NaN"
| "xadd PInf y = PInf"
| "xadd x PInf = PInf"
| "xadd NInf y = NInf"
| "xadd x NInf = NInf"

fun xmul_inf :: "bool \<Rightarrow> real \<Rightarrow> xreal" where
  "xmul_inf positive a =
     (if a = 0 then NaN else if (0 < a) = positive then PInf else NInf)"

fun xmul :: "xreal \<Rightarrow> xreal \<Rightarrow> xreal" where
  "xmul NaN y = NaN"
| "xmul x NaN = NaN"
| "xmul (Fin a) (Fin b) = Fin (a * b)"
| "xmul PInf (Fin b) = xmul_inf True b"
| "xmul NInf (Fin b) = xmul_inf False b"
| "xmul (Fin a) PInf = xmul_inf True a"
| "xmul (Fin a) NInf = xmul_inf False a"
| "xmul PInf PInf = PInf"
| "xmul NInf NInf = PInf"
| "xmul PInf NInf = NInf"
| "xmul NInf PInf = NInf"

fun xless :: "xreal \<Rightarrow> xreal \<Rightarrow> bool" where
  "xless NaN y = False"
| "xless x NaN = False"
| "xless (Fin a) (Fin b) = (a < b)"
| "xless x NInf = False"
| "xless NInf y = True"
| "xless PInf y = False"
| "xless x PInf = True"

fun xexp :: "xreal \<Rightarrow> xreal" where
  "xexp NaN = NaN"
| "xexp NInf = Fin 0"
| "xexp PInf = PInf"
| "xexp (Fin a) = Fin (exp a)"

definition extended_reals :: "xreal arith" where
  "extended_reals =
     \<lparr>fp_isinf = (\<lambda>x. x = NInf \<or> x = PInf),
      fp_less = xless,
      fp_eq = (\<lambda>x y. x \<noteq> NaN \<and> x = y),
      fp_add = xadd,
      fp_sub = (\<lambda>x y. xadd x (xneg y)),
      fp_mul = xmul,
      fp_exp = xexp,
      fp_zero = Fin 0,
      fp_one = Fin 1\<rparr>"


text \<open>
  The pattern around every \<open>starpu_task_insert\<close> of this file,
  \<open>ret = starpu_task_insert(...); if(ret != 0) throw std::runtime_error("ret != 0")\<close>,
  as one value: the outcome and the runtime after the call.
\<close>

definition enqueued ::
  "codelet \<Rightarrow> 'h starpu_arg list \<Rightarrow> 'h runtime \<Rightarrow> (error + unit) \<times> 'h runtime" where
  "enqueued cl args rt =
     (if next_ret rt \<noteq> 0 then Inl (RuntimeError ''ret != 0'') else Inr (),
      \<lparr>calls = calls rt @ [Task_insert cl args (next_ret rt)], rets = tl (rets rt)\<rparr>)"

text \<open>Example tiles, for the concrete instances below.\<close>

definition tile_4x5 :: Tile where
  "tile_4x5 = make_Tile [4, 5] \<lparr>ptr = 0, nbytes = 80, mode = STARPU_RW\<rparr>"

definition tile_3x3 :: Tile where
  "tile_3x3 = make_Tile [3, 3] \<lparr>ptr = 128, nbytes = 36, mode = STARPU_RW\<rparr>"

definition scratch_2 :: StarpuVariableHandle where
  "scratch_2 = \<lparr>ptr = 256, nbytes = 32, mode = STARPU_SCRATCH\<rparr>"


text \<open>
  Modelled from the spec: the constructor of a tensor over a shape, a base tile shape
  and its tile handles (sections 3 and 4.1: the grid has \<open>ceil(shape[i] /
  basetile_shape[i])\<close> tiles along axis \<open>i\<close>).  Used for the concrete instances below.
\<close>

definition make_Tensor :: "Index list \<Rightarrow> Index list \<Rightarrow> Handle list \<Rightarrow> Tensor" where
  "make_Tensor shp basetile hs =
     \<lparr>ndim = length shp, shape = shp, stride = column_major_stride shp,
      nelems = prod_list shp, matrix_shape = matrix_shapes shp,
      basetile_shape = basetile,
      leftover_shape = map2 (\<lambda>s b. s - b * ((s + b - 1) div b - 1)) shp basetile,
      grid = make_TileTraits (map2 (\<lambda>s b. (s + b - 1) div b) shp basetile),
      tile_handles = hs\<rparr>"

text \<open>
  The single-tile path of \<open>gather_async\<close> on the owning node, as one value: transfer,
  \<open>starpu_data_cpy\<close>, and the flush when the copy was accepted.
\<close>

definition data_cpy_outcome ::
  "Handle \<Rightarrow> Handle \<Rightarrow> int \<Rightarrow> int \<Rightarrow> Handle runtime \<Rightarrow> (error + unit) \<times> Handle runtime" where
  "data_cpy_outcome dst_h src_h dst_rank mpi_rank rt =
     (if next_ret rt \<noteq> 0
      then (Inl (RuntimeError ''Error in starpu_data_cpy''),
            \<lparr>calls = calls rt @ [Mpi_transfer src_h dst_rank mpi_rank,
                                 Data_cpy dst_h src_h (next_ret rt)],
             rets = tl (rets rt)\<rparr>)
      else (Inr (),
            \<lparr>calls = calls rt @ [Mpi_transfer src_h dst_rank mpi_rank,
                                 Data_cpy dst_h src_h 0, Mpi_flush dst_h],
             rets = tl (rets rt)\<rparr>))"

text \<open>
  What gathering tile \<open>i\<close> amounts to, computed directly from the linear tile index:
  the transfer of the tile and the subcopy task that places it at
  \<open>linear_to_index(i)[k] * basetile_shape[k]\<close> in the destination.
\<close>

definition gather_tile_calls :: "int \<Rightarrow> Tensor \<Rightarrow> Tensor \<Rightarrow> nat \<Rightarrow> Handle call list" where
  "gather_tile_calls mpi_rank src dst i =
     [Mpi_transfer (get_tile_handle src (int i)) (mpi_get_rank (get_tile_handle dst 0)) mpi_rank,
      Task_insert codelet_subcopy
        [STARPU_VALUE [int (ndim src)],
         STARPU_VALUE (replicate (ndim src) 0),
         STARPU_VALUE (stride (get_tile_traits src (int i))),
         STARPU_VALUE (map (\<lambda>k. linear_to_index (shape (grid src)) (int i) ! k
                                   * basetile_shape src ! k) [0..<ndim src]),
         STARPU_VALUE (stride (get_tile_traits dst 0)),
         STARPU_VALUE (shape (get_tile_traits src (int i))),
         STARPU_BUFFER STARPU_R (get_tile_handle src (int i)),
         STARPU_BUFFER (if i = 0 then STARPU_W else STARPU_RW) (get_tile_handle dst 0),
         STARPU_BUFFER STARPU_SCRATCH (VariableHandle (2 * int (ndim src) * 8) STARPU_SCRATCH)]
        0]"

text \<open>Example tensors.\<close>

definition tensor_two_tiles :: Tensor where
  "tensor_two_tiles = make_Tensor [4, 3] [2, 3] [TileHandle 0 1, TileHandle 1 2]"

definition tensor_one_tile :: Tensor where
  "tensor_one_tile = make_Tensor [4, 3] [4, 3] [TileHandle 2 0]"

definition tensor_other_tile :: Tensor where
  "tensor_other_tile = make_Tensor [4, 3] [4, 3] [TileHandle 3 0]"

definition tensor_transposed :: Tensor where
  "tensor_transposed = make_Tensor [3, 4] [3, 4] [TileHandle 4 0]"


text \<open>
  The terms of the claim about masking, continued.  The non-masked elements of a slice
  are those different from negative infinity, in their order.
\<close>

definition non_masked :: "'a \<Rightarrow> 'a list \<Rightarrow> 'a list" where
  "non_masked ninf vals = filter (\<lambda>x. x \<noteq> ninf) vals"

text \<open>
  What the claim needs from the arithmetic and from the data: \<open>ninf\<close> is the negative
  infinity of the arithmetic, the only value of the data that \<open>std::isinf\<close> accepts
  (no positive infinity in the data), every other value of the data is above it
  (no NaN in the data) with \<open>exp(ninf - x) = 0\<close>, and \<open>1 * 0 + 1 = 1\<close>.
\<close>

definition ieee_mask :: "'a arith \<Rightarrow> 'a \<Rightarrow> 'a list \<Rightarrow> bool" where
  "ieee_mask A ninf xs \<longleftrightarrow>
     fp_isinf A ninf
     \<and> (\<forall>x\<in>set xs. fp_isinf A x \<longrightarrow> x = ninf)
     \<and> (\<forall>x\<in>set xs. \<not> fp_isinf A x \<longrightarrow>
            fp_less A ninf x \<and> fp_exp A (fp_sub A ninf x) = fp_zero A)
     \<and> fp_add A (fp_mul A (fp_one A) (fp_zero A)) (fp_one A) = fp_one A"

text \<open>
  Closed forms of the loops.  One iteration of the loop over \<open>i0\<close>, and the pair that
  the loop reaches for a slice given as the list of its values.
\<close>

definition masked_update :: "'a arith \<Rightarrow> 'a \<Rightarrow> 'a \<times> 'a \<Rightarrow> 'a \<times> 'a" where
  "masked_update A val st = (if fp_isinf A val then st else update_max_sum A val st)"

definition slice_pair :: "'a arith \<Rightarrow> 'a list \<Rightarrow> 'a \<times> 'a" where
  "slice_pair A vals = fold (masked_update A) (tl vals) (hd vals, fp_one A)"

text \<open>
  The pair that the kernel leaves at output position \<open>q\<close> (the slice
  \<open>i1 = q mod m\<close>, \<open>i2 = q div m\<close>), and the output buffer once the first \<open>c\<close>
  slices are saved.
\<close>

definition new_pair :: "'a arith \<Rightarrow> Index \<Rightarrow> Index \<Rightarrow> 'a list \<Rightarrow> 'a list \<Rightarrow> nat \<Rightarrow> 'a \<times> 'a" where
  "new_pair A m k src old q =
     (let P = slice_pair A (slice_values src m k (int q mod m) (int q div m));
          old_pair = (old ! (2 * q), old ! (2 * q + 1))
      in if fp_isinf A (fst P) then old_pair else accumulate A P old_pair)"

definition expected_out ::
  "'a arith \<Rightarrow> Index \<Rightarrow> Index \<Rightarrow> 'a list \<Rightarrow> 'a list \<Rightarrow> nat \<Rightarrow> 'a list" where
  "expected_out A m k src old c =
     map (\<lambda>j. if j < 2 * c
              then (if even j then fst (new_pair A m k src old (j div 2))
                    else snd (new_pair A m k src old (j div 2)))
              else old ! j) [0..<length old]"


section \<open>Properties of the tile constructor\<close>

declare carry.simps [simp del] copy_loop.simps [simp del] intersect_loop.simps [simp del]
  lars_loop.simps [simp del] tile_carry.simps [simp del] gather_loop.simps [simp del]
  slice_loop.simps [simp del] i1_loop.simps [simp del] i2_loop.simps [simp del]


lemma nat_product_overflow:
  fixes a s M :: nat
  assumes "0 < s"
  shows "((a * s) mod M) div s = a \<longleftrightarrow> a * s < M \<or> (M = 0)"
proof (cases "M = 0")
  case True
  with assms show ?thesis by simp
next
  case False
  show ?thesis
  proof
    assume "a * s < M \<or> M = 0"
    with False assms show "((a * s) mod M) div s = a" by simp
  next
    assume e: "((a * s) mod M) div s = a"
    have "a * s < M"
    proof (rule ccontr)
      assume "\<not> a * s < M"
      then have ge: "M \<le> a * s" by simp
      then have "(a * s) mod M \<le> a * s - M"
        by (metis le_mod_geq mod_less_eq_dividend)
      with False ge have "(a * s) mod M < a * s" by linarith
      then have "((a * s) mod M) div s < a"
        using assms by (simp add: less_mult_imp_div_less)
      with e show False by simp
    qed
    then show "a * s < M \<or> M = 0" ..
  qed
qed

lemma size_t_product_check:
  fixes a s :: "64 word"
  assumes "s \<noteq> 0"
  shows "(a * s) div s = a \<longleftrightarrow> unat a * unat s < 2 ^ 64"
proof -
  have s: "0 < unat s" using assms by (simp add: unat_gt_0)
  have "(a * s) div s = a \<longleftrightarrow> unat ((a * s) div s) = unat a"
    by (simp add: word_unat_eq_iff)
  also have "\<dots> \<longleftrightarrow> ((unat a * unat s) mod 2 ^ 64) div unat s = unat a"
    by (simp add: unat_div unat_word_ariths)
  also have "\<dots> \<longleftrightarrow> unat a * unat s < 2 ^ 64"
    using nat_product_overflow [OF s, of "unat a" "2 ^ 64"] by simp
  finally show ?thesis .
qed

lemma get_size_throws_iff:
  assumes "sizeof_T \<noteq> 0"
  shows "(\<exists>e. get_size sizeof_T n ptr_nelems = Inl e) \<longleftrightarrow>
         (ptr_nelems < n \<or> 2 ^ 64 \<le> unat (word_of_int n :: 64 word) * unat sizeof_T)"
  using size_t_product_check [OF assms, of "word_of_int n"]
  by (auto simp: get_size_def Let_def)

lemma get_size_value:
  assumes "get_size sizeof_T n ptr_nelems = Inr sz"
  shows "sz = word_of_int n * sizeof_T"
  using assms by (auto simp: get_size_def Let_def split: if_splits)

text \<open>
  Claim C10.  Wrapping a caller-provided buffer fails, and registers no handle, exactly
  when the buffer holds fewer than \<open>nelems\<close> elements or \<open>nelems * sizeof(T)\<close> does not
  fit into \<open>size_t\<close>; otherwise exactly one handle is registered, over the given
  pointer, with \<open>nelems * sizeof(T)\<close> bytes.  For a non-negative \<open>nelems\<close> (it is a
  product of extents) the converted operand \<open>unat (word_of_int nelems)\<close> is \<open>nelems\<close>
  itself.
\<close>

theorem Tile_of_buffer_throws_iff:
  assumes "sizeof_T \<noteq> 0" and "0 \<le> nelems traits" and "nelems traits < 2 ^ 63"
  shows "((\<exists>e. Tile_of_buffer sizeof_T traits p ptr_nelems registered = (Inl e, registered))
            \<longleftrightarrow> (ptr_nelems < nelems traits \<or> 2 ^ 64 \<le> nelems traits * uint sizeof_T))
       \<and> (\<not> (ptr_nelems < nelems traits \<or> 2 ^ 64 \<le> nelems traits * uint sizeof_T) \<longrightarrow>
            (\<exists>t. Tile_of_buffer sizeof_T traits p ptr_nelems registered
                    = (Inr t, registered @ [handle t])
               \<and> TileTraits.truncate t = traits
               \<and> ptr (handle t) = p \<and> mode (handle t) = STARPU_RW
               \<and> uint (nbytes (handle t)) = nelems traits * uint sizeof_T))"
proof -
  let ?n = "nelems traits"
  have un: "unat (word_of_int ?n :: 64 word) = nat ?n"
  proof -
    have "uint (word_of_int ?n :: 64 word) = ?n mod 2 ^ 64"
      by (simp add: uint_word_of_int)
    also have "\<dots> = ?n" using assms(2,3) by simp
    finally show ?thesis by (simp add: unat_eq_nat_uint)
  qed
  have ov: "(2 ^ 64 \<le> unat (word_of_int ?n :: 64 word) * unat sizeof_T)
              \<longleftrightarrow> (2 ^ 64 \<le> ?n * uint sizeof_T)"
  proof -
    have "int (nat ?n * unat sizeof_T) = ?n * uint sizeof_T"
      using assms(2) by simp
    then have "(2 ^ 64 \<le> nat ?n * unat sizeof_T) \<longleftrightarrow> (2 ^ 64 \<le> ?n * uint sizeof_T)"
      by (metis (mono_tags, opaque_lifting) of_nat_le_iff of_nat_numeral of_nat_power)
    with un show ?thesis by simp
  qed
  have thr: "(\<exists>e. get_size sizeof_T ?n ptr_nelems = Inl e) \<longleftrightarrow>
             (ptr_nelems < ?n \<or> 2 ^ 64 \<le> ?n * uint sizeof_T)"
    using get_size_throws_iff [OF assms(1), of ?n ptr_nelems] ov by simp
  have A: "(\<exists>e. Tile_of_buffer sizeof_T traits p ptr_nelems registered = (Inl e, registered))
            \<longleftrightarrow> (\<exists>e. get_size sizeof_T ?n ptr_nelems = Inl e)"
    by (auto simp: Tile_of_buffer_def Let_def split: sum.splits)
  have B: "\<exists>t. Tile_of_buffer sizeof_T traits p ptr_nelems registered
                    = (Inr t, registered @ [handle t])
               \<and> TileTraits.truncate t = traits
               \<and> ptr (handle t) = p \<and> mode (handle t) = STARPU_RW
               \<and> uint (nbytes (handle t)) = ?n * uint sizeof_T"
    if ok: "\<not> (ptr_nelems < ?n \<or> 2 ^ 64 \<le> ?n * uint sizeof_T)"
  proof -
    from ok thr obtain sz where sz: "get_size sizeof_T ?n ptr_nelems = Inr sz"
      by (cases "get_size sizeof_T ?n ptr_nelems") auto
    have szv: "sz = word_of_int ?n * sizeof_T" by (rule get_size_value [OF sz])
    have "unat sz = (nat ?n * unat sizeof_T) mod 2 ^ 64"
      using un by (simp add: szv unat_word_ariths)
    moreover have "nat ?n * unat sizeof_T < 2 ^ 64"
      using ok ov un by simp
    ultimately have "unat sz = nat ?n * unat sizeof_T" by simp
    then have "int (unat sz) = ?n * uint sizeof_T"
      using assms(2) by simp
    then have u: "uint sz = ?n * uint sizeof_T" by simp
    show ?thesis
      using sz u
      by (simp add: Tile_of_buffer_def Let_def TileTraits.extend_def TileTraits.truncate_def)
  qed
  from A thr B show ?thesis by blast
qed

theorem Tile_of_buffer_throws_iff_witness:
  "((\<exists>e. Tile_of_buffer 4 (make_TileTraits [2, 3]) 0 5 [] = (Inl e, []))
      \<longleftrightarrow> ((5::int) < nelems (make_TileTraits [2, 3])
           \<or> 2 ^ 64 \<le> nelems (make_TileTraits [2, 3]) * uint (4 :: 64 word)))
   \<and> (\<exists>e. Tile_of_buffer 4 (make_TileTraits [2, 3]) 0 5 [] = (Inl e, []))
   \<and> (\<exists>t. Tile_of_buffer 4 (make_TileTraits [2, 3]) 0 6 [] = (Inr t, [] @ [handle t])
         \<and> uint (nbytes (handle t)) = 24)"
proof -
  have n: "nelems (make_TileTraits [2, 3]) = 6" by (simp add: make_TileTraits_def)
  have h: "(4 :: 64 word) \<noteq> 0" "0 \<le> nelems (make_TileTraits [2, 3])"
    "nelems (make_TileTraits [2, 3]) < 2 ^ 63"
    by (simp_all add: n)
  note T5 = Tile_of_buffer_throws_iff [OF h, of 0 5 "[]"]
  note T6 = Tile_of_buffer_throws_iff [OF h, of 0 6 "[]"]
  have c1: "((\<exists>e. Tile_of_buffer 4 (make_TileTraits [2, 3]) 0 5 [] = (Inl e, []))
      \<longleftrightarrow> ((5::int) < nelems (make_TileTraits [2, 3])
           \<or> 2 ^ 64 \<le> nelems (make_TileTraits [2, 3]) * uint (4 :: 64 word)))"
    using T5 by blast
  have c2: "\<exists>e. Tile_of_buffer 4 (make_TileTraits [2, 3]) 0 5 [] = (Inl e, [])"
    using c1 by (simp add: n)
  have "\<not> ((6::int) < nelems (make_TileTraits [2, 3])
           \<or> 2 ^ 64 \<le> nelems (make_TileTraits [2, 3]) * uint (4 :: 64 word))"
    by (simp add: n)
  with T6 have c3: "\<exists>t. Tile_of_buffer 4 (make_TileTraits [2, 3]) 0 6 [] = (Inr t, [] @ [handle t])
         \<and> uint (nbytes (handle t)) = 24"
    by (auto simp: n)
  from c1 c2 c3 show ?thesis by blast
qed


section \<open>Column-major indexing\<close>

lemma index_to_linear_Nil: "index_to_linear w [] = 0"
  by (simp add: index_to_linear_def)

lemma index_to_linear_Cons:
  "index_to_linear (s # w) (d # p) = d * s + index_to_linear w p"
  by (simp add: index_to_linear_def sum.lessThan_Suc_shift del: sum.lessThan_Suc)

lemma int_div_less:
  fixes t n m :: int
  assumes "0 < n" and "t < n * m"
  shows "t div n < m"
proof -
  have "n * (t div n) + t mod n = t" by simp
  moreover have "0 \<le> t mod n" using assms(1) by simp
  ultimately have "n * (t div n) \<le> t" by linarith
  with assms(2) have "n * (t div n) < n * m" by simp
  then show ?thesis using assms(1) by (simp add: mult_less_cancel_left_pos)
qed

lemma index_to_linear_update:
  assumes "k < length p"
  shows "index_to_linear w (p[k := a]) = index_to_linear w p + (a - p ! k) * w ! k"
proof -
  have fin: "finite {..<length p}" and mem: "k \<in> {..<length p}" using assms by simp_all
  have "index_to_linear w (p[k := a])
          = a * w ! k + (\<Sum>i\<in>{..<length p} - {k}. p[k := a] ! i * w ! i)"
    using assms by (simp add: index_to_linear_def sum.remove [OF fin mem])
  also have "(\<Sum>i\<in>{..<length p} - {k}. p[k := a] ! i * w ! i)
          = (\<Sum>i\<in>{..<length p} - {k}. p ! i * w ! i)"
    by (rule sum.cong) auto
  also have "index_to_linear w p = p ! k * w ! k + (\<Sum>i\<in>{..<length p} - {k}. p ! i * w ! i)"
    by (simp add: index_to_linear_def sum.remove [OF fin mem])
  then have "(\<Sum>i\<in>{..<length p} - {k}. p ! i * w ! i) = index_to_linear w p - p ! k * w ! k"
    by simp
  finally show ?thesis by (simp add: algebra_simps)
qed

lemma index_to_linear_add:
  assumes "length p = length q"
  shows "index_to_linear w (map2 (+) p q) = index_to_linear w p + index_to_linear w q"
  using assms by (simp add: index_to_linear_def sum.distrib [symmetric] algebra_simps)

lemma length_strides_from [simp]: "length (strides_from s shp) = length shp"
  by (induction shp arbitrary: s) simp_all

lemma length_linear_to_index [simp]: "length (linear_to_index shp t) = length shp"
  by (induction shp arbitrary: t) simp_all

lemma strides_from_scale:
  "length p = length shp \<Longrightarrow>
   index_to_linear (strides_from s shp) p = s * index_to_linear (strides_from 1 shp) p"
proof (induction shp arbitrary: s p)
  case Nil
  then show ?case by (simp add: index_to_linear_Nil)
next
  case (Cons n ns)
  then obtain d ds where p: "p = d # ds" and l: "length ds = length ns"
    by (cases p) auto
  have "index_to_linear (strides_from s (n # ns)) p
        = d * s + (s * n) * index_to_linear (strides_from 1 ns) ds"
    using Cons.IH [OF l, of "s * n"] by (simp add: p index_to_linear_Cons)
  moreover have "index_to_linear (strides_from 1 (n # ns)) p
        = d + n * index_to_linear (strides_from 1 ns) ds"
    using Cons.IH [OF l, of "n"] by (simp add: p index_to_linear_Cons)
  ultimately show ?case by (simp add: algebra_simps)
qed

lemma column_major_Cons:
  "length p = length ns \<Longrightarrow>
   index_to_linear (column_major_stride (n # ns)) (d # p)
     = d + n * index_to_linear (column_major_stride ns) p"
  using strides_from_scale [of p ns n]
  by (simp add: column_major_stride_def index_to_linear_Cons)

lemma in_box_Nil [simp]: "in_box [] p \<longleftrightarrow> p = []"
  by (auto simp: in_box_def)

lemma in_box_Cons:
  "in_box (n # ns) q \<longleftrightarrow> (\<exists>d p. q = d # p \<and> 0 \<le> d \<and> d < n \<and> in_box ns p)"
  by (cases q) (auto simp: in_box_def All_less_Suc2)

lemma column_major_range:
  "in_box shp p \<Longrightarrow>
   0 \<le> index_to_linear (column_major_stride shp) p
   \<and> index_to_linear (column_major_stride shp) p < prod_list shp"
proof (induction shp arbitrary: p)
  case Nil
  then show ?case by (simp add: index_to_linear_Nil)
next
  case (Cons n ns)
  from Cons.prems obtain d q where p: "p = d # q" and d: "0 \<le> d" "d < n" and q: "in_box ns q"
    by (auto simp: in_box_Cons)
  have l: "length q = length ns" using q by (simp add: in_box_def)
  let ?v = "index_to_linear (column_major_stride ns) q"
  have v: "0 \<le> ?v" "?v < prod_list ns" using Cons.IH [OF q] by simp_all
  have e: "index_to_linear (column_major_stride (n # ns)) p = d + n * ?v"
    by (simp add: p column_major_Cons [OF l])
  have "0 \<le> n * ?v" using d v by simp
  moreover have "d + n * ?v < n * prod_list ns"
  proof -
    have "?v + 1 \<le> prod_list ns" using v by simp
    then have "n * (?v + 1) \<le> n * prod_list ns" using d by (simp add: mult_left_mono)
    then show ?thesis using d by (simp add: algebra_simps)
  qed
  ultimately show ?case using d by (simp add: e)
qed

lemma linear_to_index_inverse:
  "in_box shp p \<Longrightarrow> linear_to_index shp (index_to_linear (column_major_stride shp) p) = p"
proof (induction shp arbitrary: p)
  case Nil
  then show ?case by simp
next
  case (Cons n ns)
  from Cons.prems obtain d q where p: "p = d # q" and d: "0 \<le> d" "d < n" and q: "in_box ns q"
    by (auto simp: in_box_Cons)
  have l: "length q = length ns" using q by (simp add: in_box_def)
  let ?v = "index_to_linear (column_major_stride ns) q"
  have e: "index_to_linear (column_major_stride (n # ns)) (d # q) = d + n * ?v"
    by (simp add: column_major_Cons [OF l])
  have "(d + n * ?v) mod n = d" using d by simp
  moreover have "(d + n * ?v) div n = ?v" using d by simp
  ultimately show ?case using Cons.IH [OF q] by (simp add: e p)
qed

lemma linear_to_index_in_box:
  "\<forall>n\<in>set shp. 1 \<le> n \<Longrightarrow> 0 \<le> t \<Longrightarrow> t < prod_list shp \<Longrightarrow>
   in_box shp (linear_to_index shp t)
   \<and> index_to_linear (column_major_stride shp) (linear_to_index shp t) = t"
proof (induction shp arbitrary: t)
  case Nil
  then show ?case by (simp add: index_to_linear_Nil)
next
  case (Cons n ns)
  have n: "1 \<le> n" and ns: "\<forall>n\<in>set ns. 1 \<le> n" using Cons.prems(1) by simp_all
  have t': "0 \<le> t div n" using Cons.prems(2) n by (simp add: pos_imp_zdiv_nonneg_iff)
  have "t < n * prod_list ns" using Cons.prems(3) by simp
  then have t'': "t div n < prod_list ns" using n
    by (intro int_div_less) simp_all
  note IH = Cons.IH [OF ns t' t'']
  have m: "0 \<le> t mod n" "t mod n < n" using n by simp_all
  have b: "in_box (n # ns) (linear_to_index (n # ns) t)"
    using IH m by (simp add: in_box_Cons)
  have "index_to_linear (column_major_stride (n # ns)) (linear_to_index (n # ns) t)
        = t mod n + n * (t div n)"
    using IH by (simp add: column_major_Cons)
  then show ?case using b by simp
qed

lemma column_major_stride_nth:
  "k < length shp \<Longrightarrow> column_major_stride shp ! k = prod_list (take k shp)"
proof -
  have "k < length shp \<Longrightarrow> strides_from s shp ! k = s * prod_list (take k shp)" for s
  proof (induction shp arbitrary: s k)
    case Nil
    then show ?case by simp
  next
    case (Cons n ns)
    then show ?case by (cases k) (simp_all add: algebra_simps)
  qed
  then show "k < length shp \<Longrightarrow> column_major_stride shp ! k = prod_list (take k shp)"
    by (simp add: column_major_stride_def)
qed

lemma column_major_stride_Suc:
  assumes "Suc k < length shp"
  shows "column_major_stride shp ! Suc k = column_major_stride shp ! k * shp ! k"
proof -
  have "take (Suc k) shp = take k shp @ [shp ! k]"
    using assms by (simp add: take_Suc_conv_app_nth)
  then show ?thesis using assms by (simp add: column_major_stride_nth)
qed

lemma column_major_stride_last:
  assumes "shp \<noteq> []"
  shows "column_major_stride shp ! (length shp - 1) * shp ! (length shp - 1) = prod_list shp"
proof -
  let ?k = "length shp - 1"
  have k: "?k < length shp" using assms by simp
  have "take (Suc ?k) shp = take ?k shp @ [shp ! ?k]"
    using k by (rule take_Suc_conv_app_nth)
  moreover have "take (Suc ?k) shp = shp" using assms by simp
  ultimately have "prod_list shp = prod_list (take ?k shp) * shp ! ?k"
    by (metis prod_list.append prod_list.Cons prod_list.Nil mult.right_neutral)
  then show ?thesis using k by (simp add: column_major_stride_nth)
qed

lemma index_to_linear_diff:
  assumes "length a = length b"
  shows "index_to_linear w a - index_to_linear w b = (\<Sum>k<length a. (a ! k - b ! k) * w ! k)"
  using assms by (simp add: index_to_linear_def sum_subtractf [symmetric] algebra_simps)

lemma carry_correct:
  assumes len: "length index = nd" "length start = nd" "length copy_shape = nd"
    and pos: "\<forall>k<nd. 1 \<le> copy_shape ! k"
    and j: "j < nd"
    and low: "\<forall>k<j. index ! k = start ! k"
    and atj: "start ! j \<le> index ! j" "index ! j \<le> start ! j + copy_shape ! j"
    and high: "\<forall>k. j < k \<and> k < nd \<longrightarrow> start ! k \<le> index ! k \<and> index ! k < start ! k + copy_shape ! k"
    and val: "index_to_linear (column_major_stride copy_shape) index
                - index_to_linear (column_major_stride copy_shape) start < prod_list copy_shape"
    and off: "offset = index_to_linear strd index"
  shows "\<exists>index'. carry nd start strd copy_shape (index, offset) j
                     = Inr (index', index_to_linear strd index')
           \<and> length index' = nd
           \<and> (\<forall>k<nd. start ! k \<le> index' ! k \<and> index' ! k < start ! k + copy_shape ! k)
           \<and> index_to_linear (column_major_stride copy_shape) index'
               = index_to_linear (column_major_stride copy_shape) index"
  using len(1) j low atj high val off
proof (induction "nd - j" arbitrary: j index offset)
  case 0
  then show ?case by simp
next
  case (Suc m)
  let ?P = "column_major_stride copy_shape"
  note jn = \<open>j < nd\<close>
  note li = \<open>length index = nd\<close>
  show ?case
  proof (cases "index ! j = start ! j + copy_shape ! j")
    case False
    have "\<forall>k<nd. start ! k \<le> index ! k \<and> index ! k < start ! k + copy_shape ! k"
    proof (intro allI impI)
      fix k assume k: "k < nd"
      consider "k < j" | "k = j" | "j < k" by linarith
      then show "start ! k \<le> index ! k \<and> index ! k < start ! k + copy_shape ! k"
      proof cases
        case 1
        with Suc.prems(3) pos k show ?thesis by force
      next
        case 2
        with Suc.prems(4,5) False show ?thesis by simp
      next
        case 3
        with Suc.prems(6) k show ?thesis by simp
      qed
    qed
    with False jn li Suc.prems(8) show ?thesis by (subst carry.simps) simp
  next
    case True
    have j1: "j + 1 < nd"
    proof (rule ccontr)
      assume "\<not> j + 1 < nd"
      with jn have nd: "nd = Suc j" by simp
      have "index_to_linear ?P index - index_to_linear ?P start
              = (\<Sum>k<Suc j. (index ! k - start ! k) * ?P ! k)"
        using index_to_linear_diff [of index start ?P] li len(2) nd by simp
      also have "\<dots> = (\<Sum>k<j. (index ! k - start ! k) * ?P ! k) + copy_shape ! j * ?P ! j"
        using True by simp
      also have "(\<Sum>k<j. (index ! k - start ! k) * ?P ! k) = 0"
        using Suc.prems(3) by simp
      also have "0 + copy_shape ! j * ?P ! j = prod_list copy_shape"
      proof -
        have "copy_shape \<noteq> []" using len(3) nd by auto
        from column_major_stride_last [OF this] show ?thesis
          using len(3) nd by (simp add: mult.commute)
      qed
      finally show False using Suc.prems(7) by simp
    qed
    let ?index = "index[j := start ! j, j + 1 := index ! (j + 1) + 1]"
    let ?offset = "offset + (strd ! (j + 1) - copy_shape ! j * strd ! j)"
    have step: "carry nd start strd copy_shape (index, offset) j
                 = carry nd start strd copy_shape (?index, ?offset) (j + 1)"
      using True jn j1 by (subst carry.simps) simp
    have upd: "index_to_linear w ?index
                 = index_to_linear w index + (w ! (j + 1) - copy_shape ! j * w ! j)" for w
    proof -
      have "index_to_linear w ?index
              = index_to_linear w (index[j := start ! j])
                + (index ! (j + 1) + 1 - index[j := start ! j] ! (j + 1)) * w ! (j + 1)"
        using j1 li by (intro index_to_linear_update) simp
      also have "index[j := start ! j] ! (j + 1) = index ! (j + 1)" by simp
      also have "index_to_linear w (index[j := start ! j])
              = index_to_linear w index + (start ! j - index ! j) * w ! j"
        using jn li by (intro index_to_linear_update) simp
      finally show ?thesis using True by (simp add: algebra_simps)
    qed
    have P: "?P ! (j + 1) = ?P ! j * copy_shape ! j"
      using column_major_stride_Suc [of j copy_shape] j1 len(3) by simp
    have same: "index_to_linear ?P ?index = index_to_linear ?P index"
      using upd [of ?P] P by simp
    have m: "m = nd - (j + 1)" using Suc.hyps(2) by simp
    have l': "length ?index = nd" using li by simp
    have low': "\<forall>k<j + 1. ?index ! k = start ! k"
    proof (intro allI impI)
      fix k assume "k < j + 1"
      then consider "k < j" | "k = j" by linarith
      then show "?index ! k = start ! k"
        using Suc.prems(3) jn li by cases (simp_all add: nth_list_update)
    qed
    have hj: "start ! (j + 1) \<le> index ! (j + 1) \<and> index ! (j + 1) < start ! (j + 1) + copy_shape ! (j + 1)"
      using Suc.prems(6) j1 by simp
    have at': "start ! (j + 1) \<le> ?index ! (j + 1)"
      "?index ! (j + 1) \<le> start ! (j + 1) + copy_shape ! (j + 1)"
      using hj j1 li by simp_all
    have high': "\<forall>k. j + 1 < k \<and> k < nd \<longrightarrow>
                   start ! k \<le> ?index ! k \<and> ?index ! k < start ! k + copy_shape ! k"
      using Suc.prems(6) by simp
    have val': "index_to_linear ?P ?index - index_to_linear ?P start < prod_list copy_shape"
      using Suc.prems(7) same by simp
    have off': "?offset = index_to_linear strd ?index"
      using upd [of strd] Suc.prems(8) by simp
    from Suc.hyps(1) [OF m l' j1 low' at' high' val' off']
    show ?thesis using step same by simp
  qed
qed

lemma index_to_linear_sub:
  assumes "length p = length q"
  shows "index_to_linear w (map2 (-) p q) = index_to_linear w p - index_to_linear w q"
  using assms by (simp add: index_to_linear_def sum_subtractf [symmetric] algebra_simps)

lemma all_nth_set: "length xs = n \<Longrightarrow> (\<forall>k<n. P (xs ! k)) \<longleftrightarrow> (\<forall>x\<in>set xs. P x)"
  using all_set_conv_all_nth [of xs P] by auto

lemma box_index_props:
  assumes "length copy_shape = nd" and "\<forall>k<nd. 1 \<le> copy_shape ! k"
    and "int t < prod_list copy_shape"
  shows "in_box copy_shape (box_index copy_shape t)"
    and "index_to_linear (column_major_stride copy_shape) (box_index copy_shape t) = int t"
proof -
  have "\<forall>n\<in>set copy_shape. 1 \<le> n"
    using assms(1,2) all_nth_set [of copy_shape nd "\<lambda>x. 1 \<le> x"] by simp
  from linear_to_index_in_box [OF this _ assms(3)]
  show "in_box copy_shape (box_index copy_shape t)"
    and "index_to_linear (column_major_stride copy_shape) (box_index copy_shape t) = int t"
    by (simp_all add: box_index_def)
qed

lemma advance_correct:
  assumes len: "length start = nd" "length copy_shape = nd"
    and nd: "0 < nd"
    and pos: "\<forall>k<nd. 1 \<le> copy_shape ! k"
    and strd0: "strd ! 0 = 1"
    and t: "int t + 1 < prod_list copy_shape"
  shows "carry nd start strd copy_shape
           ((map2 (+) start (box_index copy_shape t))
               [0 := map2 (+) start (box_index copy_shape t) ! 0 + 1],
            index_to_linear strd (map2 (+) start (box_index copy_shape t)) + 1) 0
         = Inr (map2 (+) start (box_index copy_shape (t + 1)),
                index_to_linear strd (map2 (+) start (box_index copy_shape (t + 1))))"
proof -
  let ?P = "column_major_stride copy_shape"
  let ?p = "box_index copy_shape t"
  let ?sp = "map2 (+) start ?p"
  let ?index = "?sp[0 := ?sp ! 0 + 1]"
  have t': "int t < prod_list copy_shape" using t by simp
  note bp = box_index_props [OF len(2) pos t']
  have lp: "length ?p = nd" using bp(1) len(2) by (simp add: in_box_def)
  have rng: "\<forall>k<nd. 0 \<le> ?p ! k \<and> ?p ! k < copy_shape ! k"
    using bp(1) len(2) by (simp add: in_box_def)
  have lsp: "length ?sp = nd" using lp len(1) by simp
  have nth_sp: "?sp ! k = start ! k + ?p ! k" if "k < nd" for k
    using that lp len(1) by simp
  have P0: "?P ! 0 = 1" using column_major_stride_nth [of 0 copy_shape] nd len(2) by simp
  have li: "length ?index = nd" using lsp by simp
  have upd: "index_to_linear w ?index = index_to_linear w ?sp + w ! 0" for w
  proof -
    have "0 < length ?sp" using nd lsp by simp
    then have "index_to_linear w ?index
                 = index_to_linear w ?sp + (?sp ! 0 + 1 - ?sp ! 0) * w ! 0"
      by (rule index_to_linear_update)
    also have "?sp ! 0 + 1 - ?sp ! 0 = 1" by (rule add_diff_cancel_left')
    finally show ?thesis by (simp only: mult_1)
  qed
  have low: "\<forall>k<0. ?index ! k = start ! k" by simp
  have at: "start ! 0 \<le> ?index ! 0" "?index ! 0 \<le> start ! 0 + copy_shape ! 0"
    using rng nd lsp nth_sp [OF nd] by auto
  have high: "\<forall>k. 0 < k \<and> k < nd \<longrightarrow>
                start ! k \<le> ?index ! k \<and> ?index ! k < start ! k + copy_shape ! k"
    using rng nth_sp by auto
  have add: "index_to_linear ?P ?sp = index_to_linear ?P start + int t"
    using index_to_linear_add [of start ?p ?P] lp len(1) bp(2) by simp
  have val: "index_to_linear ?P ?index - index_to_linear ?P start < prod_list copy_shape"
    using upd [of ?P] P0 add t by simp
  have off: "index_to_linear strd ?sp + 1 = index_to_linear strd ?index"
    using upd [of strd] strd0 by simp
  from carry_correct [OF li len pos nd low at high val off]
  obtain index' where
    c: "carry nd start strd copy_shape (?index, index_to_linear strd ?sp + 1) 0
          = Inr (index', index_to_linear strd index')"
    and l': "length index' = nd"
    and r': "\<forall>k<nd. start ! k \<le> index' ! k \<and> index' ! k < start ! k + copy_shape ! k"
    and v': "index_to_linear ?P index' = index_to_linear ?P ?index"
    by blast
  let ?D = "map2 (-) index' start"
  have boxD: "in_box copy_shape ?D"
    using r' l' len by (auto simp: in_box_def)
  have "index_to_linear ?P ?D = index_to_linear ?P index' - index_to_linear ?P start"
    using index_to_linear_sub [of index' start ?P] l' len(1) by simp
  also have "\<dots> = int t + 1" using v' upd [of ?P] P0 add by simp
  finally have "linear_to_index copy_shape (int t + 1) = ?D"
    using linear_to_index_inverse [OF boxD] by simp
  then have D: "box_index copy_shape (t + 1) = ?D"
    by (simp add: box_index_def add.commute)
  have "map2 (+) start ?D = index'"
    using l' len(1) by (intro nth_equalityI) simp_all
  with c D show ?thesis by simp
qed

lemma write_elem_pair [simp]: "write_elem src (so, do) d = d[nat do := src ! nat so]"
  by (simp add: write_elem_def)

lemma length_fold_write_elem [simp]: "length (fold (write_elem src) vs d) = length d"
  by (induction vs arbitrary: d) auto

lemma side_ok_stride0: "side_ok nd shp start strd copy_shape len \<Longrightarrow> 0 < nd \<Longrightarrow> strd ! 0 = 1"
  using column_major_stride_nth [of 0 shp] by (simp add: side_ok_def)

lemma side_ok_offset_range:
  assumes ok: "side_ok nd shp start strd copy_shape len"
    and cs: "length copy_shape = nd" "\<forall>k<nd. 1 \<le> copy_shape ! k"
    and t: "int t < prod_list copy_shape"
  shows "in_box shp (map2 (+) start (box_index copy_shape t))"
    and "0 \<le> index_to_linear strd (map2 (+) start (box_index copy_shape t))"
    and "index_to_linear strd (map2 (+) start (box_index copy_shape t)) < int len"
proof -
  let ?p = "box_index copy_shape t"
  have b: "in_box copy_shape ?p" by (rule box_index_props(1) [OF cs t])
  then have lp: "length ?p = nd" and rng: "\<forall>k<nd. 0 \<le> ?p ! k \<and> ?p ! k < copy_shape ! k"
    using cs(1) by (simp_all add: in_box_def)
  have ls: "length start = nd" "length shp = nd" using ok by (simp_all add: side_ok_def)
  have st: "\<forall>k<nd. 0 \<le> start ! k \<and> start ! k + copy_shape ! k \<le> shp ! k"
    using ok by (simp add: side_ok_def)
  show box: "in_box shp (map2 (+) start ?p)"
    unfolding in_box_def
  proof (intro conjI allI impI)
    show "length (map2 (+) start ?p) = length shp" using lp ls by simp
  next
    fix k assume "k < length shp"
    then have k: "k < nd" using ls by simp
    then have e: "map2 (+) start ?p ! k = start ! k + ?p ! k" using lp ls by simp
    show "0 \<le> map2 (+) start ?p ! k"
      using e st [rule_format, OF k] rng [rule_format, OF k] by linarith
    show "map2 (+) start ?p ! k < shp ! k"
      using e st [rule_format, OF k] rng [rule_format, OF k] by linarith
  qed
  have sd: "strd = column_major_stride shp" using ok by (simp add: side_ok_def)
  have ll: "int len = prod_list shp" using ok by (simp add: side_ok_def)
  from column_major_range [OF box]
  show "0 \<le> index_to_linear strd (map2 (+) start ?p)"
    and "index_to_linear strd (map2 (+) start ?p) < int len"
    by (simp_all add: sd ll)
qed

lemma copy_step_state_at:
  fixes src dst :: "'a list"
  assumes s: "side_ok nd src_shape src_start src_stride copy_shape (length src)"
    and d: "side_ok nd dst_shape dst_start dst_stride copy_shape (length dst)"
    and cs: "length copy_shape = nd" "\<forall>k<nd. 1 \<le> copy_shape ! k"
    and nd: "0 < nd"
    and t: "0 < t" "int t < prod_list copy_shape"
  shows "copy_step nd src_start src_stride copy_shape dst_start dst_stride src
           (state_at src_start src_stride copy_shape dst_start dst_stride src dst t)
         = Inr (state_at src_start src_stride copy_shape dst_start dst_stride src dst (t + 1))"
proof -
  let ?no = "naive_offsets src_start src_stride copy_shape dst_start dst_stride"
  have t1: "int (t - 1) + 1 < prod_list copy_shape" using t by simp
  have ls: "length src_start = nd" "length dst_start = nd"
    using s d by (simp_all add: side_ok_def)
  note as = advance_correct [OF ls(1) cs(1) nd cs(2) side_ok_stride0 [OF s nd] t1]
  note ad = advance_correct [OF ls(2) cs(1) nd cs(2) side_ok_stride0 [OF d nd] t1]
  have tt: "t - 1 + 1 = t" using t by simp
  note rs = side_ok_offset_range(2,3) [OF s cs t(2)]
  note rd = side_ok_offset_range(2,3) [OF d cs t(2)]
  have fs: "fst (?no t) = index_to_linear src_stride (map2 (+) src_start (box_index copy_shape t))"
    and sn: "snd (?no t) = index_to_linear dst_stride (map2 (+) dst_start (box_index copy_shape t))"
    by (simp_all add: naive_offsets_def)
  have pair: "(fst (?no t), snd (?no t)) = ?no t" by simp
  show ?thesis
    unfolding state_at_def copy_step.simps
    apply (simp only: naive_offsets_def fst_conv snd_conv as ad tt sum.case prod.case)
    using rs rd
    apply (simp add: naive_offsets_def)
    done
qed

lemma copy_loop_state_at:
  fixes src dst :: "'a list"
  assumes s: "side_ok nd src_shape src_start src_stride copy_shape (length src)"
    and d: "side_ok nd dst_shape dst_start dst_stride copy_shape (length dst)"
    and cs: "length copy_shape = nd" "\<forall>k<nd. 1 \<le> copy_shape ! k"
    and nd: "0 < nd"
    and t: "0 < t" "int t \<le> prod_list copy_shape"
  shows "copy_loop (int t) (prod_list copy_shape) nd src_start src_stride copy_shape
           dst_start dst_stride src
           (state_at src_start src_stride copy_shape dst_start dst_stride src dst t)
         = Inr (state_at src_start src_stride copy_shape dst_start dst_stride src dst
                  (nat (prod_list copy_shape)))"
  using t
proof (induction "nat (prod_list copy_shape) - t" arbitrary: t)
  case 0
  then have e: "int t = prod_list copy_shape" by simp
  then have n: "nat (prod_list copy_shape) = t" by simp
  show ?case unfolding n by (subst copy_loop.simps) (simp add: e [symmetric])
next
  case (Suc m)
  then have lt: "int t < prod_list copy_shape" by simp
  have m: "m = nat (prod_list copy_shape) - (t + 1)" using Suc.hyps(2) by simp
  have t1: "0 < t + 1" "int (t + 1) \<le> prod_list copy_shape" using lt by simp_all
  note step = copy_step_state_at [OF s d cs nd Suc.prems(1) lt]
  have "copy_loop (int t) (prod_list copy_shape) nd src_start src_stride copy_shape
           dst_start dst_stride src
           (state_at src_start src_stride copy_shape dst_start dst_stride src dst t)
        = copy_loop (int t + 1) (prod_list copy_shape) nd src_start src_stride copy_shape
           dst_start dst_stride src
           (state_at src_start src_stride copy_shape dst_start dst_stride src dst (t + 1))"
    using lt step by (subst copy_loop.simps) simp
  also have "int t + 1 = int (t + 1)" by simp
  finally show ?case using Suc.hyps(1) [OF m t1] by simp
qed

lemma fold_mult_nth:
  "fold (\<lambda>i n. n * xs ! i) [0..<length xs] (a::int) = a * prod_list xs"
proof (induction xs arbitrary: a rule: rev_induct)
  case Nil
  then show ?case by simp
next
  case (snoc x xs)
  have "fold (\<lambda>i n. n * (xs @ [x]) ! i) [0..<length xs] a
          = fold (\<lambda>i n. n * xs ! i) [0..<length xs] a"
    by (rule fold_cong) (simp_all add: nth_append)
  then show ?case using snoc.IH [of a] by (simp add: algebra_simps)
qed

lemma fold_add_upt:
  "fold (\<lambda>i off. off + f i) [m..<n] (a::int) = a + (\<Sum>i = m..<n. f i)"
proof (induction n)
  case 0
  then show ?case by simp
next
  case (Suc n)
  then show ?case by (cases "m \<le> n") simp_all
qed

lemma fold_offset:
  assumes "0 < nd" and "length start = nd" and "strd ! 0 = 1"
  shows "fold (\<lambda>i off. off + start ! i * strd ! i) [1..<nd] (start ! 0)
           = index_to_linear strd start"
proof -
  have "index_to_linear strd start = (\<Sum>i = 0..<nd. start ! i * strd ! i)"
    using assms(2) by (simp add: index_to_linear_def lessThan_atLeast0)
  also have "\<dots> = start ! 0 * strd ! 0 + (\<Sum>i = 1..<nd. start ! i * strd ! i)"
    using assms(1) by (simp add: sum.atLeast_Suc_lessThan)
  finally show ?thesis using assms(3) by (simp add: fold_add_upt)
qed

lemma linear_to_index_zero: "linear_to_index shp 0 = replicate (length shp) 0"
  by (induction shp) simp_all

lemma map2_add_zeros: "length start = n \<Longrightarrow> map2 (+) start (replicate n (0::int)) = start"
  by (intro nth_equalityI) simp_all

lemma cpu_copy_intersection_state_at:
  fixes src dst :: "'a list"
  assumes s: "side_ok nd src_shape src_start src_stride copy_shape (length src)"
    and d: "side_ok nd dst_shape dst_start dst_stride copy_shape (length dst)"
    and cs: "length copy_shape = nd" "\<forall>k<nd. 1 \<le> copy_shape ! k"
    and nd: "0 < nd"
  shows "cpu_copy_intersection nd src_start src_stride copy_shape dst_start dst_stride src dst
         = Inr (state_at src_start src_stride copy_shape dst_start dst_stride src dst
                  (nat (prod_list copy_shape)))"
proof -
  have posall: "\<forall>n\<in>set copy_shape. 1 \<le> n"
    using cs all_nth_set [of copy_shape nd "\<lambda>x. 1 \<le> x"] by simp
  then have "\<forall>n\<in>set copy_shape. 0 < n" by force
  then have "0 < prod_list copy_shape" by (induction copy_shape) simp_all
  then have one: "int 1 \<le> prod_list copy_shape" "int 0 < prod_list copy_shape" by simp_all
  have ls: "length src_start = nd" "length dst_start = nd"
    using s d by (simp_all add: side_ok_def)
  have ne: "fold (\<lambda>i n. n * copy_shape ! i) [0..<nd] 1 = prod_list copy_shape"
    using fold_mult_nth [of copy_shape 1] cs(1) by simp
  have si: "map (\<lambda>i. src_start ! i) [0..<nd] = src_start"
    "map (\<lambda>i. dst_start ! i) [0..<nd] = dst_start"
    using ls map_nth [of src_start] map_nth [of dst_start] by simp_all
  have so: "fold (\<lambda>i off. off + src_start ! i * src_stride ! i) [1..<nd] (src_start ! 0)
              = index_to_linear src_stride src_start"
    by (rule fold_offset [OF nd ls(1) side_ok_stride0 [OF s nd]])
  have do: "fold (\<lambda>i off. off + dst_start ! i * dst_stride ! i) [1..<nd] (dst_start ! 0)
              = index_to_linear dst_stride dst_start"
    by (rule fold_offset [OF nd ls(2) side_ok_stride0 [OF d nd]])
  have b0: "box_index copy_shape 0 = replicate nd 0"
    by (simp add: box_index_def linear_to_index_zero cs(1))
  have z: "map2 (+) src_start (box_index copy_shape 0) = src_start"
    "map2 (+) dst_start (box_index copy_shape 0) = dst_start"
    using ls by (simp_all only: b0 map2_add_zeros)
  note rs = side_ok_offset_range(2,3) [OF s cs one(2), unfolded z]
  note rd = side_ok_offset_range(2,3) [OF d cs one(2), unfolded z]
  have init: "assign src (src_start, dst_start, index_to_linear src_stride src_start,
                 index_to_linear dst_stride dst_start, dst, [])
              = Inr (state_at src_start src_stride copy_shape dst_start dst_stride src dst 1)"
    using rs rd by (simp add: state_at_def naive_offsets_def z)
  have nz: "(nd = 0) = False" using nd by simp
  have "cpu_copy_intersection nd src_start src_stride copy_shape dst_start dst_stride src dst
         = (case assign src (src_start, dst_start, index_to_linear src_stride src_start,
                 index_to_linear dst_stride dst_start, dst, []) of
              Inl f \<Rightarrow> Inl f
            | Inr st \<Rightarrow> copy_loop 1 (prod_list copy_shape) nd src_start src_stride copy_shape
                          dst_start dst_stride src st)"
    unfolding cpu_copy_intersection_def Let_def ne si so do nz if_False ..
  also have "\<dots> = copy_loop (int 1) (prod_list copy_shape) nd src_start src_stride copy_shape
             dst_start dst_stride src
             (state_at src_start src_stride copy_shape dst_start dst_stride src dst 1)"
    by (simp only: init sum.case of_nat_1)
  also have "\<dots> = Inr (state_at src_start src_stride copy_shape dst_start dst_stride src dst
                  (nat (prod_list copy_shape)))"
    by (rule copy_loop_state_at [OF s d cs nd _ one(1)]) simp
  finally show ?thesis .
qed

lemma fold_write_elem_other:
  "i \<notin> (\<lambda>v. nat (snd v)) ` set vs \<Longrightarrow> fold (write_elem src) vs d ! i = d ! i"
  by (induction vs arbitrary: d) auto

lemma fold_write_elem_hit:
  assumes "distinct (map (\<lambda>v. nat (snd v)) vs)" and "(so, do) \<in> set vs" and "nat do < length d"
  shows "fold (write_elem src) vs d ! nat do = src ! nat so"
  using assms
proof (induction vs arbitrary: d)
  case Nil
  then show ?case by simp
next
  case (Cons v vs)
  show ?case
  proof (cases "v = (so, do)")
    case True
    have "nat do \<notin> (\<lambda>v. nat (snd v)) ` set vs" using Cons.prems(1) True by auto
    then show ?thesis using True Cons.prems(3) by (simp add: fold_write_elem_other)
  next
    case False
    with Cons.prems have "(so, do) \<in> set vs" "distinct (map (\<lambda>v. nat (snd v)) vs)" by auto
    then show ?thesis using Cons.IH [of "write_elem src v d"] Cons.prems(3)
      by (cases v) simp
  qed
qed

lemma box_index_of_linear:
  assumes "in_box copy_shape p"
  shows "0 \<le> index_to_linear (column_major_stride copy_shape) p"
    and "index_to_linear (column_major_stride copy_shape) p < prod_list copy_shape"
    and "box_index copy_shape (nat (index_to_linear (column_major_stride copy_shape) p)) = p"
  using column_major_range [OF assms] linear_to_index_inverse [OF assms]
  by (simp_all add: box_index_def)

lemma map2_add_left_cancel:
  assumes "map2 (+) a p = map2 (+) a q" and "length p = length a" and "length q = length a"
  shows "p = (q :: int list)"
proof (rule nth_equalityI)
  show "length p = length q" using assms by simp
next
  fix k assume k: "k < length p"
  then have "map2 (+) a p ! k = map2 (+) a q ! k" using assms(1) by simp
  then show "p ! k = q ! k" using k assms(2,3) by simp
qed

lemma naive_visits_distinct:
  assumes d: "side_ok nd dst_shape dst_start dst_stride copy_shape len"
    and cs: "length copy_shape = nd" "\<forall>k<nd. 1 \<le> copy_shape ! k"
  shows "distinct (map (\<lambda>v. nat (snd v))
           (naive_visits src_start src_stride copy_shape dst_start dst_stride))"
proof -
  let ?no = "naive_offsets src_start src_stride copy_shape dst_start dst_stride"
  let ?N = "nat (prod_list copy_shape)"
  have "inj_on (\<lambda>t. nat (snd (?no t))) (set [0..<?N])"
  proof (rule inj_onI)
    fix t t' assume t: "t \<in> set [0..<?N]" and t': "t' \<in> set [0..<?N]"
      and e: "nat (snd (?no t)) = nat (snd (?no t'))"
    have lt: "int t < prod_list copy_shape" "int t' < prod_list copy_shape"
      using t t' by simp_all
    let ?q = "\<lambda>t. map2 (+) dst_start (box_index copy_shape t)"
    note r = side_ok_offset_range [OF d cs lt(1)]
    note r' = side_ok_offset_range [OF d cs lt(2)]
    have sd: "dst_stride = column_major_stride dst_shape" using d by (simp add: side_ok_def)
    have "index_to_linear dst_stride (?q t) = index_to_linear dst_stride (?q t')"
      using e r(2) r'(2) by (simp add: naive_offsets_def)
    then have "linear_to_index dst_shape (index_to_linear (column_major_stride dst_shape) (?q t))
             = linear_to_index dst_shape (index_to_linear (column_major_stride dst_shape) (?q t'))"
      by (simp add: sd)
    then have q: "?q t = ?q t'"
      using linear_to_index_inverse [OF r(1)] linear_to_index_inverse [OF r'(1)] by simp
    note b = box_index_props [OF cs lt(1)]
    note b' = box_index_props [OF cs lt(2)]
    have ls: "length dst_start = nd" using d by (simp add: side_ok_def)
    have "box_index copy_shape t = box_index copy_shape t'"
    proof (rule map2_add_left_cancel [of dst_start])
      show "?q t = ?q t'" by (rule q)
      show "length (box_index copy_shape t) = length dst_start"
        using b(1) cs(1) ls by (simp add: in_box_def)
      show "length (box_index copy_shape t') = length dst_start"
        using b'(1) cs(1) ls by (simp add: in_box_def)
    qed
    then have "index_to_linear (column_major_stride copy_shape) (box_index copy_shape t)
             = index_to_linear (column_major_stride copy_shape) (box_index copy_shape t')"
      by (rule arg_cong)
    then have "int t = int t'" by (simp only: b(2) b'(2))
    then show "t = t'" by simp
  qed
  then show ?thesis
    by (simp add: naive_visits_def distinct_map comp_def del: set_upt)
qed

lemma cpu_copy_intersection_correct:
  fixes src dst :: "'a list"
  assumes s: "side_ok nd src_shape src_start src_stride copy_shape (length src)"
    and d: "side_ok nd dst_shape dst_start dst_stride copy_shape (length dst)"
    and cs: "length copy_shape = nd" "\<forall>k<nd. 1 \<le> copy_shape ! k"
    and nd: "0 < nd"
  shows "\<exists>st. cpu_copy_intersection nd src_start src_stride copy_shape dst_start dst_stride
                src dst = Inr st
           \<and> visited_of st = naive_visits src_start src_stride copy_shape dst_start dst_stride
           \<and> dst_of st
               = naive_copy src_start src_stride copy_shape dst_start dst_stride src dst
           \<and> length (dst_of st) = length dst
           \<and> (\<forall>p. in_box copy_shape p \<longrightarrow>
                 dst_of st ! nat (index_to_linear dst_stride (map2 (+) dst_start p))
                   = src ! nat (index_to_linear src_stride (map2 (+) src_start p)))
           \<and> (\<forall>i<length dst.
                 (\<forall>p. in_box copy_shape p \<longrightarrow>
                        i \<noteq> nat (index_to_linear dst_stride (map2 (+) dst_start p)))
                 \<longrightarrow> dst_of st ! i = dst ! i)"
proof -
  let ?no = "naive_offsets src_start src_stride copy_shape dst_start dst_stride"
  let ?nv = "naive_visits src_start src_stride copy_shape dst_start dst_stride"
  let ?N = "nat (prod_list copy_shape)"
  let ?st = "state_at src_start src_stride copy_shape dst_start dst_stride src dst ?N"
  have run: "cpu_copy_intersection nd src_start src_stride copy_shape dst_start dst_stride
                src dst = Inr ?st"
    by (rule cpu_copy_intersection_state_at [OF s d cs nd])
  have vis: "visited_of ?st = ?nv" by (simp add: state_at_def naive_visits_def)
  have dst: "dst_of ?st = fold (write_elem src) ?nv dst"
    by (simp add: state_at_def naive_visits_def)
  have nc: "dst_of ?st = naive_copy src_start src_stride copy_shape dst_start dst_stride src dst"
    by (simp add: dst naive_copy_def write_elem_def)
  have len: "length (dst_of ?st) = length dst" by (simp add: dst)
  note dist = naive_visits_distinct [OF d cs, of src_start src_stride]
  have hit: "dst_of ?st ! nat (index_to_linear dst_stride (map2 (+) dst_start p))
                   = src ! nat (index_to_linear src_stride (map2 (+) src_start p))"
    if p: "in_box copy_shape p" for p
  proof -
    let ?t = "nat (index_to_linear (column_major_stride copy_shape) p)"
    note bl = box_index_of_linear [OF p]
    have t: "int ?t < prod_list copy_shape" using bl(1,2) by simp
    then have "?t < ?N" by (simp only: zless_nat_eq_int_zless)
    then have "?t \<in> set [0..<?N]" by simp
    then have "?no ?t \<in> set ?nv" by (simp add: naive_visits_def del: set_upt)
    then have mem: "(index_to_linear src_stride (map2 (+) src_start p),
                index_to_linear dst_stride (map2 (+) dst_start p)) \<in> set ?nv"
      by (simp add: naive_offsets_def bl(3))
    have "nat (index_to_linear dst_stride (map2 (+) dst_start p)) < length dst"
      using side_ok_offset_range(2,3) [OF d cs t] by (simp add: bl(3))
    from fold_write_elem_hit [OF dist mem this] show ?thesis by (simp add: dst)
  qed
  have miss: "dst_of ?st ! i = dst ! i"
    if i: "\<forall>p. in_box copy_shape p \<longrightarrow>
                 i \<noteq> nat (index_to_linear dst_stride (map2 (+) dst_start p))" for i
  proof -
    have "i \<notin> (\<lambda>v. nat (snd v)) ` set ?nv"
    proof
      assume "i \<in> (\<lambda>v. nat (snd v)) ` set ?nv"
      then obtain t where t: "t < ?N" and e: "i = nat (snd (?no t))"
        by (auto simp: naive_visits_def)
      have "int t < prod_list copy_shape" using t by simp
      from box_index_props(1) [OF cs this] i
      have "i \<noteq> nat (index_to_linear dst_stride (map2 (+) dst_start (box_index copy_shape t)))"
        by blast
      with e show False by (simp add: naive_offsets_def)
    qed
    then show ?thesis by (simp add: dst fold_write_elem_other)
  qed
  show ?thesis
  proof (intro exI conjI allI impI)
    show "cpu_copy_intersection nd src_start src_stride copy_shape dst_start dst_stride
                src dst = Inr ?st" by (rule run)
    show "visited_of ?st = ?nv" by (rule vis)
    show "dst_of ?st = naive_copy src_start src_stride copy_shape dst_start dst_stride src dst"
      by (rule nc)
    show "length (dst_of ?st) = length dst" by (rule len)
  next
    fix p assume "in_box copy_shape p"
    then show "dst_of ?st ! nat (index_to_linear dst_stride (map2 (+) dst_start p))
                   = src ! nat (index_to_linear src_stride (map2 (+) src_start p))"
      by (rule hit)
  next
    fix i assume "\<forall>p. in_box copy_shape p \<longrightarrow>
                        i \<noteq> nat (index_to_linear dst_stride (map2 (+) dst_start p))"
    then show "dst_of ?st ! i = dst ! i" by (rule miss)
  qed
qed


lemma cpu_copy_intersection_twice:
  fixes src dst :: "'a list"
  assumes s: "side_ok nd src_shape src_start src_stride copy_shape (length src)"
    and d: "side_ok nd dst_shape dst_start dst_stride copy_shape (length dst)"
    and cs: "length copy_shape = nd" "\<forall>k<nd. 1 \<le> copy_shape ! k"
    and nd: "0 < nd"
  shows "\<exists>st st'. cpu_copy_intersection nd src_start src_stride copy_shape dst_start
                    dst_stride src dst = Inr st
           \<and> cpu_copy_intersection nd src_start src_stride copy_shape dst_start
                    dst_stride src (dst_of st) = Inr st'
           \<and> dst_of st' = dst_of st"
proof -
  let ?pos = "\<lambda>p. nat (index_to_linear dst_stride (map2 (+) dst_start p))"
  let ?val = "\<lambda>p. src ! nat (index_to_linear src_stride (map2 (+) src_start p))"
  from cpu_copy_intersection_correct [OF s d cs nd]
  obtain st where run: "cpu_copy_intersection nd src_start src_stride copy_shape dst_start
                    dst_stride src dst = Inr st"
    and len: "length (dst_of st) = length dst"
    and hit: "\<forall>p. in_box copy_shape p \<longrightarrow> dst_of st ! ?pos p = ?val p"
    by blast
  have d': "side_ok nd dst_shape dst_start dst_stride copy_shape (length (dst_of st))"
    using d len by simp
  from cpu_copy_intersection_correct [OF s d' cs nd]
  obtain st' where run': "cpu_copy_intersection nd src_start src_stride copy_shape dst_start
                    dst_stride src (dst_of st) = Inr st'"
    and len': "length (dst_of st') = length (dst_of st)"
    and hit': "\<forall>p. in_box copy_shape p \<longrightarrow> dst_of st' ! ?pos p = ?val p"
    and miss': "\<forall>i<length (dst_of st).
                 (\<forall>p. in_box copy_shape p \<longrightarrow> i \<noteq> ?pos p) \<longrightarrow> dst_of st' ! i = dst_of st ! i"
    by blast
  have "dst_of st' = dst_of st"
  proof (rule nth_equalityI)
    show "length (dst_of st') = length (dst_of st)" by (rule len')
  next
    fix i assume "i < length (dst_of st')"
    then have i: "i < length (dst_of st)" using len' by simp
    show "dst_of st' ! i = dst_of st ! i"
    proof (cases "\<exists>p. in_box copy_shape p \<and> i = ?pos p")
      case True
      then obtain p where "in_box copy_shape p" "i = ?pos p" by blast
      then show ?thesis using hit hit' by simp
    next
      case False
      then show ?thesis using miss' i by blast
    qed
  qed
  with run run' show ?thesis by blast
qed


section \<open>The kernel against the naive per-element mapping\<close>

text \<open>
  Claim C1.  For \<open>nd \<ge> 1\<close>, column-major strides on both sides, a box
  \<open>copy_shape\<close> with every extent at least 1, and start vectors that keep the box
  inside each tile, \<open>cpu_copy_intersection\<close> returns (no access leaves a buffer or the
  index vectors), the pairs of offsets it assigns are, in program order, exactly
  \<open>(index_to_linear(src_start + p), index_to_linear(dst_start + p))\<close> for the
  multi-indices \<open>p\<close> of the box in column-major order, the destination it leaves is
  the one of the naive per-element copy, every element of the box holds the source
  element, and every destination element outside the box is unchanged.
\<close>

theorem cpu_copy_intersection_refines_naive:
  fixes src dst :: "'a list"
  assumes "1 \<le> nd"
    and "length src_shape = nd" and "length dst_shape = nd"
    and "length src_start = nd" and "length dst_start = nd" and "length copy_shape = nd"
    and "src_stride = column_major_stride src_shape"
    and "dst_stride = column_major_stride dst_shape"
    and "\<forall>k<nd. 1 \<le> copy_shape ! k"
    and "\<forall>k<nd. 0 \<le> src_start ! k \<and> src_start ! k + copy_shape ! k \<le> src_shape ! k"
    and "\<forall>k<nd. 0 \<le> dst_start ! k \<and> dst_start ! k + copy_shape ! k \<le> dst_shape ! k"
    and "int (length src) = prod_list src_shape"
    and "int (length dst) = prod_list dst_shape"
  shows "\<exists>st. cpu_copy_intersection nd src_start src_stride copy_shape dst_start dst_stride
                src dst = Inr st
           \<and> visited_of st = naive_visits src_start src_stride copy_shape dst_start dst_stride
           \<and> dst_of st
               = naive_copy src_start src_stride copy_shape dst_start dst_stride src dst
           \<and> length (dst_of st) = length dst
           \<and> (\<forall>p. in_box copy_shape p \<longrightarrow>
                 dst_of st ! nat (index_to_linear dst_stride (map2 (+) dst_start p))
                   = src ! nat (index_to_linear src_stride (map2 (+) src_start p)))
           \<and> (\<forall>i<length dst.
                 (\<forall>p. in_box copy_shape p \<longrightarrow>
                        i \<noteq> nat (index_to_linear dst_stride (map2 (+) dst_start p)))
                 \<longrightarrow> dst_of st ! i = dst ! i)"
proof -
  have s: "side_ok nd src_shape src_start src_stride copy_shape (length src)"
    using assms by (simp add: side_ok_def)
  have d: "side_ok nd dst_shape dst_start dst_stride copy_shape (length dst)"
    using assms by (simp add: side_ok_def)
  have nd: "0 < nd" using assms(1) by simp
  show ?thesis by (rule cpu_copy_intersection_correct [OF s d assms(6,9) nd])
qed


theorem cpu_copy_intersection_refines_naive_witness:
  "\<exists>st. cpu_copy_intersection 2 [1, 1] (column_major_stride [3, 3]) [2, 2] [0, 1]
          (column_major_stride [2, 3]) [10, 11, 12, 13, 14, 15, 16, 17, 18 :: int]
          [0, 0, 0, 0, 0, 0] = Inr st
     \<and> visited_of st = naive_visits [1, 1] (column_major_stride [3, 3]) [2, 2] [0, 1]
                          (column_major_stride [2, 3])
     \<and> visited_of st = [(4, 2), (5, 3), (7, 4), (8, 5)]
     \<and> dst_of st = naive_copy [1, 1] (column_major_stride [3, 3]) [2, 2] [0, 1]
                      (column_major_stride [2, 3]) [10, 11, 12, 13, 14, 15, 16, 17, 18]
                      [0, 0, 0, 0, 0, 0]
     \<and> dst_of st = [0, 0, 14, 15, 17, 18]"
proof -
  have two: "(\<forall>k<2::nat. P k) \<longleftrightarrow> P 0 \<and> P 1" for P
    by (auto simp: numeral_2_eq_2 All_less_Suc)
  have "\<exists>st. cpu_copy_intersection 2 [1, 1] (column_major_stride [3, 3]) [2, 2] [0, 1]
          (column_major_stride [2, 3]) [10, 11, 12, 13, 14, 15, 16, 17, 18 :: int]
          [0, 0, 0, 0, 0, 0] = Inr st
     \<and> visited_of st = naive_visits [1, 1] (column_major_stride [3, 3]) [2, 2] [0, 1]
                          (column_major_stride [2, 3])
     \<and> dst_of st = naive_copy [1, 1] (column_major_stride [3, 3]) [2, 2] [0, 1]
                      (column_major_stride [2, 3]) [10, 11, 12, 13, 14, 15, 16, 17, 18]
                      [0, 0, 0, 0, 0, 0]"
    using cpu_copy_intersection_refines_naive [of 2 "[3, 3]" "[2, 3]" "[1, 1]" "[0, 1]" "[2, 2]"
        "column_major_stride [3, 3]" "column_major_stride [2, 3]"
        "[10, 11, 12, 13, 14, 15, 16, 17, 18 :: int]" "[0, 0, 0, 0, 0, 0]"]
    by (simp add: two)
  moreover have "cpu_copy_intersection 2 [1, 1] (column_major_stride [3, 3]) [2, 2] [0, 1]
          (column_major_stride [2, 3]) [10, 11, 12, 13, 14, 15, 16, 17, 18 :: int]
          [0, 0, 0, 0, 0, 0]
       = Inr ([2, 2], [1, 2], 9, 6, [0, 0, 14, 15, 17, 18], [(4, 2), (5, 3), (7, 4), (8, 5)])"
    by code_simp
  ultimately show ?thesis by auto
qed

text \<open>
  Claim C7.  Under the same conditions (the box lies inside the source and inside the
  destination), running \<open>cpu_copy_intersection\<close> a second time with the same
  arguments on the destination left by the first run returns, and leaves that
  destination as it is.
\<close>

theorem cpu_copy_intersection_idempotent:
  fixes src dst :: "'a list"
  assumes "1 \<le> nd"
    and "length src_shape = nd" and "length dst_shape = nd"
    and "length src_start = nd" and "length dst_start = nd" and "length copy_shape = nd"
    and "src_stride = column_major_stride src_shape"
    and "dst_stride = column_major_stride dst_shape"
    and "\<forall>k<nd. 1 \<le> copy_shape ! k"
    and "\<forall>k<nd. 0 \<le> src_start ! k \<and> src_start ! k + copy_shape ! k \<le> src_shape ! k"
    and "\<forall>k<nd. 0 \<le> dst_start ! k \<and> dst_start ! k + copy_shape ! k \<le> dst_shape ! k"
    and "int (length src) = prod_list src_shape"
    and "int (length dst) = prod_list dst_shape"
  shows "\<exists>st st'. cpu_copy_intersection nd src_start src_stride copy_shape dst_start
                    dst_stride src dst = Inr st
           \<and> cpu_copy_intersection nd src_start src_stride copy_shape dst_start
                    dst_stride src (dst_of st) = Inr st'
           \<and> dst_of st' = dst_of st"
proof -
  have s: "side_ok nd src_shape src_start src_stride copy_shape (length src)"
    using assms by (simp add: side_ok_def)
  have d: "side_ok nd dst_shape dst_start dst_stride copy_shape (length dst)"
    using assms by (simp add: side_ok_def)
  have nd: "0 < nd" using assms(1) by simp
  show ?thesis by (rule cpu_copy_intersection_twice [OF s d assms(6,9) nd])
qed

theorem cpu_copy_intersection_idempotent_witness:
  "\<exists>st st'. cpu_copy_intersection 2 [1, 1] (column_major_stride [3, 3]) [2, 2] [0, 1]
          (column_major_stride [2, 3]) [10, 11, 12, 13, 14, 15, 16, 17, 18 :: int]
          [0, 0, 0, 0, 0, 0] = Inr st
     \<and> cpu_copy_intersection 2 [1, 1] (column_major_stride [3, 3]) [2, 2] [0, 1]
          (column_major_stride [2, 3]) [10, 11, 12, 13, 14, 15, 16, 17, 18 :: int]
          (dst_of st) = Inr st'
     \<and> dst_of st' = dst_of st"
proof -
  have two: "(\<forall>k<2::nat. P k) \<longleftrightarrow> P 0 \<and> P 1" for P
    by (auto simp: numeral_2_eq_2 All_less_Suc)
  show ?thesis
    using cpu_copy_intersection_idempotent [of 2 "[3, 3]" "[2, 3]" "[1, 1]" "[0, 1]" "[2, 2]"
        "column_major_stride [3, 3]" "column_major_stride [2, 3]"
        "[10, 11, 12, 13, 14, 15, 16, 17, 18 :: int]" "[0, 0, 0, 0, 0, 0]"]
    by (simp add: two)
qed


section \<open>Submission of the intersection copy\<close>

lemma intersect_axis_None:
  "intersect_axis ss so ds dof i st = None \<longleftrightarrow> separated ss so ds dof i"
  by (cases st) (simp add: separated_def Let_def split: prod.splits)

lemma intersect_axis_Some:
  assumes "intersect_axis ss so ds dof i (a, b, c, f) = Some st'"
    and "length a = nd" "length b = nd" "length c = nd" and "i < nd"
  shows "st' = (a[i := axis_src_start so dof i], b[i := axis_dst_start so dof i],
                c[i := axis_copy_shape ss so ds dof i],
                f \<and> axis_copy_shape ss so ds dof i = ds ! i)"
  using assms
  by (auto simp: Let_def axis_src_start_def axis_dst_start_def axis_copy_shape_def min_def
      split: if_splits)

lemma intersect_loop_None:
  "intersect_loop nd ss so ds dof i st = None
     \<longleftrightarrow> (\<exists>k. i \<le> k \<and> k < nd \<and> separated ss so ds dof k)"
proof (induction nd ss so ds dof i st rule: intersect_loop.induct)
  case (1 nd ss so ds dof i st)
  show ?case
  proof (cases "i < nd")
    case False
    then show ?thesis by (subst intersect_loop.simps) simp
  next
    case True
    show ?thesis
    proof (cases "intersect_axis ss so ds dof i st")
      case None
      then have "separated ss so ds dof i" by (simp add: intersect_axis_None)
      with True None show ?thesis by (subst intersect_loop.simps) auto
    next
      case (Some st')
      then have ns: "\<not> separated ss so ds dof i"
        using intersect_axis_None [of ss so ds dof i st] by simp
      have "intersect_loop nd ss so ds dof i st = intersect_loop nd ss so ds dof (i + 1) st'"
        using True Some by (subst intersect_loop.simps) simp
      also have "\<dots> = None \<longleftrightarrow> (\<exists>k. i + 1 \<le> k \<and> k < nd \<and> separated ss so ds dof k)"
        using "1.IH" [OF True Some] .
      also have "\<dots> \<longleftrightarrow> (\<exists>k. i \<le> k \<and> k < nd \<and> separated ss so ds dof k)"
        using ns by (metis Suc_eq_plus1 Suc_leD Suc_leI le_neq_implies_less)
      finally show ?thesis .
    qed
  qed
qed

lemma intersect_loop_Some:
  assumes "intersect_loop nd ss so ds dof i (a, b, c, f) = Some (a', b', c', f')"
    and "length a = nd" "length b = nd" "length c = nd"
  shows "length a' = nd \<and> length b' = nd \<and> length c' = nd
       \<and> (\<forall>k<nd. a' ! k = (if i \<le> k then axis_src_start so dof k else a ! k))
       \<and> (\<forall>k<nd. b' ! k = (if i \<le> k then axis_dst_start so dof k else b ! k))
       \<and> (\<forall>k<nd. c' ! k = (if i \<le> k then axis_copy_shape ss so ds dof k else c ! k))
       \<and> (f' \<longleftrightarrow> f \<and> (\<forall>k. i \<le> k \<and> k < nd \<longrightarrow> axis_copy_shape ss so ds dof k = ds ! k))"
  using assms
proof (induction "nd - i" arbitrary: i a b c f)
  case 0
  then have "\<not> i < nd" by simp
  with "0.prems" show ?case by (subst (asm) intersect_loop.simps) auto
next
  case (Suc m)
  then have i: "i < nd" by simp
  from Suc.prems(1) i obtain st1 where ax: "intersect_axis ss so ds dof i (a, b, c, f) = Some st1"
    and rest: "intersect_loop nd ss so ds dof (i + 1) st1 = Some (a', b', c', f')"
    by (subst (asm) intersect_loop.simps) (auto split: option.splits)
  let ?a = "a[i := axis_src_start so dof i]"
  let ?b = "b[i := axis_dst_start so dof i]"
  let ?c = "c[i := axis_copy_shape ss so ds dof i]"
  let ?f = "f \<and> axis_copy_shape ss so ds dof i = ds ! i"
  have st1: "st1 = (?a, ?b, ?c, ?f)"
    by (rule intersect_axis_Some [OF ax Suc.prems(2,3,4) i])
  have m: "m = nd - (i + 1)" using Suc.hyps(2) by simp
  have IH: "length a' = nd \<and> length b' = nd \<and> length c' = nd
       \<and> (\<forall>k<nd. a' ! k = (if i + 1 \<le> k then axis_src_start so dof k else ?a ! k))
       \<and> (\<forall>k<nd. b' ! k = (if i + 1 \<le> k then axis_dst_start so dof k else ?b ! k))
       \<and> (\<forall>k<nd. c' ! k = (if i + 1 \<le> k then axis_copy_shape ss so ds dof k else ?c ! k))
       \<and> (f' \<longleftrightarrow> ?f \<and> (\<forall>k. i + 1 \<le> k \<and> k < nd \<longrightarrow> axis_copy_shape ss so ds dof k = ds ! k))"
    using Suc.hyps(1) [OF m rest [unfolded st1]] Suc.prems(2,3,4) by simp
  have A: "\<forall>k<nd. a' ! k = (if i \<le> k then axis_src_start so dof k else a ! k)"
  proof (intro allI impI)
    fix k assume "k < nd"
    with IH have "a' ! k = (if i + 1 \<le> k then axis_src_start so dof k else ?a ! k)" by blast
    then show "a' ! k = (if i \<le> k then axis_src_start so dof k else a ! k)"
      using i Suc.prems(2) by (cases "k = i") (auto simp: nth_list_update)
  qed
  have B: "\<forall>k<nd. b' ! k = (if i \<le> k then axis_dst_start so dof k else b ! k)"
  proof (intro allI impI)
    fix k assume "k < nd"
    with IH have "b' ! k = (if i + 1 \<le> k then axis_dst_start so dof k else ?b ! k)" by blast
    then show "b' ! k = (if i \<le> k then axis_dst_start so dof k else b ! k)"
      using i Suc.prems(3) by (cases "k = i") (auto simp: nth_list_update)
  qed
  have C: "\<forall>k<nd. c' ! k = (if i \<le> k then axis_copy_shape ss so ds dof k else c ! k)"
  proof (intro allI impI)
    fix k assume "k < nd"
    with IH have "c' ! k = (if i + 1 \<le> k then axis_copy_shape ss so ds dof k else ?c ! k)"
      by blast
    then show "c' ! k = (if i \<le> k then axis_copy_shape ss so ds dof k else c ! k)"
      using i Suc.prems(4) by (cases "k = i") (auto simp: nth_list_update)
  qed
  have "(f' \<longleftrightarrow> ?f \<and> (\<forall>k. i + 1 \<le> k \<and> k < nd \<longrightarrow> axis_copy_shape ss so ds dof k = ds ! k))"
    using IH by blast
  also have "\<dots> \<longleftrightarrow> f \<and> (\<forall>k. i \<le> k \<and> k < nd \<longrightarrow> axis_copy_shape ss so ds dof k = ds ! k)"
    using i by (metis Suc_eq_plus1 Suc_leD Suc_leI le_neq_implies_less order_refl)
  finally have F: "(f' \<longleftrightarrow> f \<and> (\<forall>k. i \<le> k \<and> k < nd \<longrightarrow> axis_copy_shape ss so ds dof k = ds ! k))" .
  from IH A B C F show ?case by blast
qed

lemma intersect_loop_closed:
  "intersect_loop nd ss so ds dof 0 (replicate nd 0, replicate nd 0, replicate nd 0, True)
   = (if \<exists>k<nd. separated ss so ds dof k then None
      else Some (map (axis_src_start so dof) [0..<nd], map (axis_dst_start so dof) [0..<nd],
                 map (axis_copy_shape ss so ds dof) [0..<nd],
                 \<forall>k<nd. axis_copy_shape ss so ds dof k = ds ! k))"
proof (cases "\<exists>k<nd. separated ss so ds dof k")
  case True
  then show ?thesis using intersect_loop_None [of nd ss so ds dof 0] by simp
next
  case False
  then have "intersect_loop nd ss so ds dof 0 (replicate nd 0, replicate nd 0, replicate nd 0, True)
               \<noteq> None"
    using intersect_loop_None [of nd ss so ds dof 0] by simp
  then obtain a' b' c' f' where
    r: "intersect_loop nd ss so ds dof 0 (replicate nd 0, replicate nd 0, replicate nd 0, True)
         = Some (a', b', c', f')"
    by (metis not_Some_eq prod_cases4)
  from intersect_loop_Some [OF r] have
    l: "length a' = nd" "length b' = nd" "length c' = nd"
    and a: "\<forall>k<nd. a' ! k = axis_src_start so dof k"
    and b: "\<forall>k<nd. b' ! k = axis_dst_start so dof k"
    and c: "\<forall>k<nd. c' ! k = axis_copy_shape ss so ds dof k"
    and f: "f' \<longleftrightarrow> (\<forall>k<nd. axis_copy_shape ss so ds dof k = ds ! k)"
    by simp_all
  have "a' = map (axis_src_start so dof) [0..<nd]"
    using l a by (intro nth_equalityI) simp_all
  moreover have "b' = map (axis_dst_start so dof) [0..<nd]"
    using l b by (intro nth_equalityI) simp_all
  moreover have "c' = map (axis_copy_shape ss so ds dof) [0..<nd]"
    using l c by (intro nth_equalityI) simp_all
  ultimately show ?thesis using False r f by simp
qed

lemma copy_intersection_work_closed:
  assumes "0 < ndim src"
  shows "copy_intersection_work src src_offset dst dst_offset scratch rt =
     (if \<exists>k<ndim src. separated (shape src) src_offset (shape dst) dst_offset k
      then (Inr (), rt)
      else if \<forall>k<ndim src. axis_copy_shape (shape src) src_offset (shape dst) dst_offset k
                              = shape dst ! k
      then enqueued codelet_copy_w
             (copy_task_args src dst scratch
                (map (axis_src_start src_offset dst_offset) [0..<ndim src])
                (map (axis_copy_shape (shape src) src_offset (shape dst) dst_offset) [0..<ndim src])
                (map (axis_dst_start src_offset dst_offset) [0..<ndim src]) STARPU_W) rt
      else enqueued codelet_copy_rw
             (copy_task_args src dst scratch
                (map (axis_src_start src_offset dst_offset) [0..<ndim src])
                (map (axis_copy_shape (shape src) src_offset (shape dst) dst_offset) [0..<ndim src])
                (map (axis_dst_start src_offset dst_offset) [0..<ndim src]) STARPU_RW) rt)"
proof -
  have e: "(let (ret, rt') = starpu_task_insert cl args rt
            in if ret \<noteq> 0 then (Inl (RuntimeError ''ret != 0''), rt') else (Inr (), rt'))
           = enqueued cl args rt" for cl and args :: "StarpuVariableHandle starpu_arg list"
    by (simp add: enqueued_def starpu_task_insert_def)
  have e2: "(let (ret, rt') = (if f then starpu_task_insert c1 a1 rt
                                 else starpu_task_insert c2 a2 rt)
             in if ret \<noteq> 0 then (Inl (RuntimeError ''ret != 0''), rt') else (Inr (), rt'))
            = (if f then enqueued c1 a1 rt else enqueued c2 a2 rt)"
    for f c1 c2 and a1 a2 :: "StarpuVariableHandle starpu_arg list"
    using e [of c1 a1] e [of c2 a2] by (cases f) simp_all
  have nz: "(ndim src = 0) = False" using assms by simp
  show ?thesis
    unfolding copy_intersection_work_def nz if_False intersect_loop_closed
    by (auto simp: e2)
qed

lemma copy_intersection_work_ndim0:
  assumes "ndim src = 0"
  shows "copy_intersection_work src src_offset dst dst_offset scratch rt =
           enqueued codelet_copy_ndim0
             [STARPU_BUFFER STARPU_R (handle src), STARPU_BUFFER STARPU_W (handle dst),
              STARPU_FLOPS 0] rt"
  using assms
  by (simp add: copy_intersection_work_def enqueued_def starpu_task_insert_def)

lemma Index_wrap_id: "is_Index x \<Longrightarrow> Index_wrap x = x"
  by (simp add: is_Index_def Index_wrap_def)

lemma separated_in_range:
  assumes "in_Index_range ss so k" and "in_Index_range ds dof k"
  shows "separated ss so ds dof k
           \<longleftrightarrow> so ! k + ss ! k \<le> dof ! k \<or> dof ! k + ds ! k \<le> so ! k"
  using assms by (simp add: separated_def in_Index_range_def Index_wrap_id)

lemma axis_values_in_range:
  assumes "in_Index_range ss so k" and "in_Index_range ds dof k"
    and "\<not> separated ss so ds dof k"
  shows "axis_src_start so dof k = (if so ! k < dof ! k then dof ! k - so ! k else 0)"
    and "axis_dst_start so dof k = (if so ! k < dof ! k then 0 else so ! k - dof ! k)"
    and "axis_copy_shape ss so ds dof k
           = min (ss ! k - axis_src_start so dof k) (ds ! k - axis_dst_start so dof k)"
proof -
  have r: "dof ! k < so ! k + ss ! k" "so ! k < dof ! k + ds ! k"
    using assms separated_in_range [OF assms(1,2)] by simp_all
  have i: "is_Index (ss ! k)" "is_Index (ds ! k)"
    using assms(1,2) by (simp_all add: in_Index_range_def)
  have d1: "is_Index (dof ! k - so ! k)" if "so ! k < dof ! k"
    using that r i by (simp add: is_Index_def)
  have d2: "is_Index (so ! k - dof ! k)" if "\<not> so ! k < dof ! k"
    using that r i by (simp add: is_Index_def)
  show s: "axis_src_start so dof k = (if so ! k < dof ! k then dof ! k - so ! k else 0)"
    using d1 by (simp add: axis_src_start_def Index_wrap_id)
  show d: "axis_dst_start so dof k = (if so ! k < dof ! k then 0 else so ! k - dof ! k)"
    using d2 by (simp add: axis_dst_start_def Index_wrap_id)
  have c1: "is_Index (ss ! k - (dof ! k - so ! k))" if "so ! k < dof ! k"
    using that r i by (simp add: is_Index_def)
  have c2: "is_Index (ds ! k - (so ! k - dof ! k))" if "\<not> so ! k < dof ! k"
    using that r i by (simp add: is_Index_def)
  show "axis_copy_shape ss so ds dof k
           = min (ss ! k - axis_src_start so dof k) (ds ! k - axis_dst_start so dof k)"
  proof (cases "so ! k < dof ! k")
    case True
    then show ?thesis using c1 by (simp add: axis_copy_shape_def s d Index_wrap_id)
  next
    case False
    then show ?thesis
      using c2 by (simp add: axis_copy_shape_def s d Index_wrap_id min.commute)
  qed
qed

lemma separated_iff_disjoint:
  assumes "in_Index_range ss so k" and "in_Index_range ds dof k"
    and "1 \<le> ss ! k" and "1 \<le> ds ! k"
  shows "separated ss so ds dof k \<longleftrightarrow> axis_interval ss so k \<inter> axis_interval ds dof k = {}"
proof
  assume "separated ss so ds dof k"
  then show "axis_interval ss so k \<inter> axis_interval ds dof k = {}"
    unfolding separated_in_range [OF assms(1,2)] by (auto simp: axis_interval_def)
next
  assume e: "axis_interval ss so k \<inter> axis_interval ds dof k = {}"
  show "separated ss so ds dof k"
  proof (rule ccontr)
    assume "\<not> separated ss so ds dof k"
    then have "max (so ! k) (dof ! k) \<in> axis_interval ss so k \<inter> axis_interval ds dof k"
      unfolding separated_in_range [OF assms(1,2)]
      using assms(3,4) by (auto simp: axis_interval_def)
    with e show False by simp
  qed
qed

lemma overlap_not_separated:
  assumes "in_Index_range ss so k" and "in_Index_range ds dof k"
    and "axis_interval ss so k \<inter> axis_interval ds dof k \<noteq> {}"
  shows "\<not> separated ss so ds dof k"
  using assms(3) unfolding separated_in_range [OF assms(1,2)]
  by (auto simp: axis_interval_def)

lemma axis_interval_Int:
  "axis_interval ss so k \<inter> axis_interval ds dof k
     = {max (so ! k) (dof ! k) ..< min (so ! k + ss ! k) (dof ! k + ds ! k)}"
  by (auto simp: axis_interval_def)

lemma axis_copy_shape_extent:
  assumes "in_Index_range ss so k" and "in_Index_range ds dof k"
    and "\<not> separated ss so ds dof k"
  shows "axis_copy_shape ss so ds dof k
     = min (so ! k + ss ! k) (dof ! k + ds ! k) - max (so ! k) (dof ! k)"
  unfolding axis_values_in_range [OF assms] by (simp add: min_def max_def)

lemma axis_copy_shape_card:
  assumes "in_Index_range ss so k" and "in_Index_range ds dof k"
    and "axis_interval ss so k \<inter> axis_interval ds dof k \<noteq> {}"
  shows "axis_copy_shape ss so ds dof k
           = int (card (axis_interval ss so k \<inter> axis_interval ds dof k))"
    and "1 \<le> axis_copy_shape ss so ds dof k"
proof -
  note ns = overlap_not_separated [OF assms]
  have lt: "max (so ! k) (dof ! k) < min (so ! k + ss ! k) (dof ! k + ds ! k)"
    using assms(3) unfolding axis_interval_Int by simp
  then show "axis_copy_shape ss so ds dof k
           = int (card (axis_interval ss so k \<inter> axis_interval ds dof k))"
    unfolding axis_interval_Int axis_copy_shape_extent [OF assms(1,2) ns] by simp
  from lt show "1 \<le> axis_copy_shape ss so ds dof k"
    unfolding axis_copy_shape_extent [OF assms(1,2) ns] by linarith
qed

lemma new_calls_enqueued:
  "new_calls rt (snd (enqueued cl args rt)) = [Task_insert cl args (next_ret rt)]"
  by (simp add: new_calls_def enqueued_def)

lemma new_calls_same [simp]: "new_calls rt rt = []"
  by (simp add: new_calls_def)

lemma run_calls_Nil [simp]: "run_calls [] src dst = Inr dst"
  by (simp add: run_calls_def)

lemma axis_start_facts:
  assumes "in_Index_range ss so k" and "in_Index_range ds dof k"
    and "\<not> separated ss so ds dof k"
  shows "axis_src_start so dof k = 0 \<or> axis_dst_start so dof k = 0"
    and "0 \<le> axis_src_start so dof k" and "0 \<le> axis_dst_start so dof k"
    and "so ! k + axis_src_start so dof k = dof ! k + axis_dst_start so dof k"
    and "axis_src_start so dof k + axis_copy_shape ss so ds dof k \<le> ss ! k"
    and "axis_dst_start so dof k + axis_copy_shape ss so ds dof k \<le> ds ! k"
  unfolding axis_values_in_range [OF assms] by auto



lemma make_Tile_simps [simp]:
  "ndim (make_Tile shp h) = length shp"
  "shape (make_Tile shp h) = shp"
  "stride (make_Tile shp h) = column_major_stride shp"
  "nelems (make_Tile shp h) = prod_list shp"
  "handle (make_Tile shp h) = h"
  by (simp_all add: make_Tile_def make_TileTraits_def TileTraits.extend_def)

lemma all_less_two: "(\<forall>k<2::nat. P k) \<longleftrightarrow> P 0 \<and> P 1"
  by (auto simp: numeral_2_eq_2 All_less_Suc)

lemma ex_less_two: "(\<exists>k<2::nat. P k) \<longleftrightarrow> P 0 \<or> P 1"
  by (auto simp: numeral_2_eq_2 Ex_less_Suc)

lemma example_tile_simps [simp]:
  "ndim tile_4x5 = 2" "shape tile_4x5 = [4, 5]" "stride tile_4x5 = column_major_stride [4, 5]"
  "ndim tile_3x3 = 2" "shape tile_3x3 = [3, 3]" "stride tile_3x3 = column_major_stride [3, 3]"
  by (simp_all add: tile_4x5_def tile_3x3_def)

text \<open>
  At the upper end of the \<open>Index\<close> range the sum \<open>src_offset[i] + src.shape[i]\<close>
  wraps: for extents \<open>[2]\<close> at offsets \<open>2^63 - 2\<close> and \<open>2^63 - 3\<close> the intervals share
  a point, yet the test of the source fires and the function returns without a task.
  The statements below about overlapping tiles are therefore for tiles whose intervals
  lie in the \<open>Index\<close> range, as the tiles of a tensor do.
\<close>

lemma copy_intersection_work_at_Index_limit:
  "axis_interval [2] [9223372036854775806] 0 \<inter> axis_interval [2] [9223372036854775805] 0
     \<noteq> {}
   \<and> \<not> in_Index_range [2] [9223372036854775806] 0
   \<and> copy_intersection_work
        (make_Tile [2] \<lparr>ptr = 0, nbytes = 8, mode = STARPU_RW\<rparr>) [9223372036854775806]
        (make_Tile [2] \<lparr>ptr = 64, nbytes = 8, mode = STARPU_RW\<rparr>) [9223372036854775805]
        \<lparr>ptr = 128, nbytes = 16, mode = STARPU_SCRATCH\<rparr> \<lparr>calls = [], rets = []\<rparr>
      = (Inr (), \<lparr>calls = [], rets = []\<rparr>)"
proof -
  have "(9223372036854775806 :: int)
          \<in> axis_interval [2] [9223372036854775806] 0
              \<inter> axis_interval [2] [9223372036854775805] 0"
    by (simp add: axis_interval_def)
  then have i: "axis_interval [2] [9223372036854775806] 0
                  \<inter> axis_interval [2] [9223372036854775805] 0 \<noteq> {}"
    by blast
  have r: "\<not> in_Index_range [2] [9223372036854775806] 0"
    by (simp add: in_Index_range_def is_Index_def)
  have s: "\<exists>k<1::nat. separated [2] [9223372036854775806] [2] [9223372036854775805] k"
    by (simp add: separated_def Index_wrap_def)
  from i r s show ?thesis by (simp add: copy_intersection_work_closed)
qed

text \<open>
  What the comment of the source, \<open>Do nothing if tiles do not intersect\<close>, and step 1
  of the algorithm say holds for tiles whose extents are all at least 1 and whose
  intervals lie in the 64-bit range: if the intervals are disjoint on some axis, the
  function returns without calling the runtime, and the destination keeps its content.
\<close>

lemma copy_intersection_work_disjoint_positive_extents:
  assumes "1 \<le> ndim src"
    and "\<forall>k<ndim src. in_Index_range (shape src) src_offset k
                        \<and> in_Index_range (shape dst) dst_offset k"
    and "\<forall>k<ndim src. 1 \<le> shape src ! k \<and> 1 \<le> shape dst ! k"
    and "\<exists>k<ndim src. axis_interval (shape src) src_offset k
                        \<inter> axis_interval (shape dst) dst_offset k = {}"
  shows "copy_intersection_work src src_offset dst dst_offset scratch rt = (Inr (), rt)
       \<and> new_calls rt (snd (copy_intersection_work src src_offset dst dst_offset scratch rt)) = []
       \<and> run_calls
            (new_calls rt (snd (copy_intersection_work src src_offset dst dst_offset scratch rt)))
            src_buf dst_buf = Inr dst_buf"
proof -
  have nd: "0 < ndim src" using assms(1) by simp
  from assms(4) obtain k where k: "k < ndim src"
    and e: "axis_interval (shape src) src_offset k \<inter> axis_interval (shape dst) dst_offset k = {}"
    by blast
  have "separated (shape src) src_offset (shape dst) dst_offset k"
    using separated_iff_disjoint [of "shape src" src_offset k "shape dst" dst_offset]
      assms(2,3) k e by blast
  then have "\<exists>k<ndim src. separated (shape src) src_offset (shape dst) dst_offset k"
    using k by blast
  then have r: "copy_intersection_work src src_offset dst dst_offset scratch rt = (Inr (), rt)"
    by (simp add: copy_intersection_work_closed [OF nd])
  show ?thesis by (simp add: r)
qed


text \<open>
  Claim C3, as amended.  For overlapping tiles (a non-empty intersection on every
  axis, \<open>ndim \<ge> 1\<close>) whose intervals lie in the 64-bit range, \<open>copy_intersection_work\<close>
  makes one call of \<open>starpu_task_insert\<close>, with the argument list of the source, whose
  three vectors satisfy, on every axis, \<open>copy_shape[i] = min(src.shape[i] -
  src_start[i], dst.shape[i] - dst_start[i])\<close>, which is the number of points of the
  interval intersection, with at least one of \<open>src_start[i]\<close>, \<open>dst_start[i]\<close> equal to
  zero (both starts are non-negative and address the same global coordinate).
\<close>

theorem copy_intersection_work_intersection:
  assumes "1 \<le> ndim src" and "ndim dst = ndim src"
    and "length (shape src) = ndim src" and "length (shape dst) = ndim src"
    and "length src_offset = ndim src" and "length dst_offset = ndim src"
    and "\<forall>k<ndim src. in_Index_range (shape src) src_offset k
                        \<and> in_Index_range (shape dst) dst_offset k"
    and "\<forall>k<ndim src. axis_interval (shape src) src_offset k
                        \<inter> axis_interval (shape dst) dst_offset k \<noteq> {}"
  shows "\<exists>src_start dst_start copy_shape cl m.
           copy_intersection_work src src_offset dst dst_offset scratch rt
             = (if next_ret rt \<noteq> 0 then Inl (RuntimeError ''ret != 0'') else Inr (),
                \<lparr>calls = calls rt @
                   [Task_insert cl
                      [STARPU_VALUE [int (ndim src)],
                       STARPU_VALUE src_start,
                       STARPU_VALUE (take (ndim src) (stride src)),
                       STARPU_VALUE copy_shape,
                       STARPU_VALUE dst_start,
                       STARPU_VALUE (take (ndim src) (stride dst)),
                       STARPU_BUFFER STARPU_R (handle src),
                       STARPU_BUFFER m (handle dst),
                       STARPU_BUFFER STARPU_SCRATCH scratch,
                       STARPU_FLOPS 0]
                      (next_ret rt)],
                 rets = tl (rets rt)\<rparr>)
         \<and> length src_start = ndim src \<and> length dst_start = ndim src
         \<and> length copy_shape = ndim src
         \<and> (\<forall>k<ndim src.
               copy_shape ! k = min (shape src ! k - src_start ! k) (shape dst ! k - dst_start ! k)
             \<and> copy_shape ! k = int (card (axis_interval (shape src) src_offset k
                                             \<inter> axis_interval (shape dst) dst_offset k))
             \<and> (src_start ! k = 0 \<or> dst_start ! k = 0)
             \<and> 0 \<le> src_start ! k \<and> 0 \<le> dst_start ! k
             \<and> src_offset ! k + src_start ! k = dst_offset ! k + dst_start ! k)"
proof -
  let ?nd = "ndim src"
  let ?ss = "map (axis_src_start src_offset dst_offset) [0..<?nd]"
  let ?ds = "map (axis_dst_start src_offset dst_offset) [0..<?nd]"
  let ?cs = "map (axis_copy_shape (shape src) src_offset (shape dst) dst_offset) [0..<?nd]"
  have nd: "0 < ?nd" using assms(1) by simp
  have rs: "in_Index_range (shape src) src_offset k" "in_Index_range (shape dst) dst_offset k"
    if "k < ?nd" for k
    using assms(7) that by simp_all
  have nk: "\<not> separated (shape src) src_offset (shape dst) dst_offset k" if "k < ?nd" for k
    using overlap_not_separated [OF rs [OF that]] assms(8) that by blast
  then have ns: "\<not> (\<exists>k<?nd. separated (shape src) src_offset (shape dst) dst_offset k)"
    by blast
  obtain cl m where run: "copy_intersection_work src src_offset dst dst_offset scratch rt
             = enqueued cl (copy_task_args src dst scratch ?ss ?cs ?ds m) rt"
    using ns copy_intersection_work_closed [OF nd, of src_offset dst dst_offset scratch rt]
    by (cases "\<forall>k<?nd. axis_copy_shape (shape src) src_offset (shape dst) dst_offset k
                         = shape dst ! k") auto
  have ax: "?cs ! k = min (shape src ! k - ?ss ! k) (shape dst ! k - ?ds ! k)
             \<and> ?cs ! k = int (card (axis_interval (shape src) src_offset k
                                             \<inter> axis_interval (shape dst) dst_offset k))
             \<and> (?ss ! k = 0 \<or> ?ds ! k = 0)
             \<and> 0 \<le> ?ss ! k \<and> 0 \<le> ?ds ! k
             \<and> src_offset ! k + ?ss ! k = dst_offset ! k + ?ds ! k" if k: "k < ?nd" for k
  proof -
    have i: "axis_interval (shape src) src_offset k \<inter> axis_interval (shape dst) dst_offset k \<noteq> {}"
      using assms(8) k by blast
    show ?thesis
      using k axis_copy_shape_card(1) [OF rs [OF k] i]
        axis_start_facts(1,2,3,4) [OF rs [OF k] nk [OF k]]
        axis_values_in_range(3) [OF rs [OF k] nk [OF k]]
      by simp
  qed
  have l: "length ?ss = ?nd" "length ?ds = ?nd" "length ?cs = ?nd" by simp_all
  from ax have "\<forall>k<?nd. ?cs ! k = min (shape src ! k - ?ss ! k) (shape dst ! k - ?ds ! k)
             \<and> ?cs ! k = int (card (axis_interval (shape src) src_offset k
                                             \<inter> axis_interval (shape dst) dst_offset k))
             \<and> (?ss ! k = 0 \<or> ?ds ! k = 0)
             \<and> 0 \<le> ?ss ! k \<and> 0 \<le> ?ds ! k
             \<and> src_offset ! k + ?ss ! k = dst_offset ! k + ?ds ! k"
    by blast
  with run [unfolded enqueued_def copy_task_args_def] l show ?thesis by blast
qed


text \<open>
  "Exactly one" of the two starts being zero fails whenever the offsets coincide on an
  axis: both tiles at offset 0 give \<open>src_start = [0]\<close> and \<open>dst_start = [0]\<close>.
\<close>

theorem copy_intersection_work_intersection_counterexample:
  "axis_interval [3] [0] 0 \<inter> axis_interval [3] [0] 0 \<noteq> {}
   \<and> copy_intersection_work
        (make_Tile [3] \<lparr>ptr = 0, nbytes = 12, mode = STARPU_RW\<rparr>) [0]
        (make_Tile [3] \<lparr>ptr = 64, nbytes = 12, mode = STARPU_RW\<rparr>) [0]
        \<lparr>ptr = 128, nbytes = 16, mode = STARPU_SCRATCH\<rparr> \<lparr>calls = [], rets = []\<rparr>
      = (Inr (),
         \<lparr>calls = [Task_insert codelet_copy_w
                     [STARPU_VALUE [1], STARPU_VALUE [0], STARPU_VALUE [1], STARPU_VALUE [3],
                      STARPU_VALUE [0], STARPU_VALUE [1],
                      STARPU_BUFFER STARPU_R \<lparr>ptr = 0, nbytes = 12, mode = STARPU_RW\<rparr>,
                      STARPU_BUFFER STARPU_W \<lparr>ptr = 64, nbytes = 12, mode = STARPU_RW\<rparr>,
                      STARPU_BUFFER STARPU_SCRATCH
                        \<lparr>ptr = 128, nbytes = 16, mode = STARPU_SCRATCH\<rparr>,
                      STARPU_FLOPS 0] 0],
           rets = []\<rparr>)"
proof -
  have "axis_interval [3] [0] 0 \<inter> axis_interval [3] [0] 0 \<noteq> {}"
    by (simp add: axis_interval_def)
  moreover have "\<not> (\<exists>k<1::nat. separated [3] [0] [3] [0] k)"
    by (simp add: separated_def Index_wrap_def)
  moreover have "[0..<1] = [0::nat]" by simp
  ultimately show ?thesis
    by (simp add: copy_intersection_work_closed enqueued_def copy_task_args_def next_ret_def
        axis_copy_shape_def axis_src_start_def axis_dst_start_def column_major_stride_def
        Index_wrap_def)
qed

theorem copy_intersection_work_intersection_witness:
  "copy_intersection_work tile_4x5 [0, 2] tile_3x3 [2, 0] scratch_2 \<lparr>calls = [], rets = []\<rparr>
     = (Inr (),
        \<lparr>calls = [Task_insert codelet_copy_rw
                    [STARPU_VALUE [2], STARPU_VALUE [2, 0], STARPU_VALUE [1, 4],
                     STARPU_VALUE [2, 1], STARPU_VALUE [0, 2], STARPU_VALUE [1, 3],
                     STARPU_BUFFER STARPU_R (handle tile_4x5),
                     STARPU_BUFFER STARPU_RW (handle tile_3x3),
                     STARPU_BUFFER STARPU_SCRATCH scratch_2,
                     STARPU_FLOPS 0] 0],
         rets = []\<rparr>)
   \<and> (\<exists>src_start dst_start copy_shape cl m.
      copy_intersection_work tile_4x5 [0, 2] tile_3x3 [2, 0] scratch_2 \<lparr>calls = [], rets = []\<rparr>
        = (Inr (),
           \<lparr>calls = [Task_insert cl
                       [STARPU_VALUE [2], STARPU_VALUE src_start, STARPU_VALUE [1, 4],
                        STARPU_VALUE copy_shape, STARPU_VALUE dst_start, STARPU_VALUE [1, 3],
                        STARPU_BUFFER STARPU_R (handle tile_4x5),
                        STARPU_BUFFER m (handle tile_3x3),
                        STARPU_BUFFER STARPU_SCRATCH scratch_2,
                        STARPU_FLOPS 0] 0],
            rets = []\<rparr>)
    \<and> length src_start = 2 \<and> length dst_start = 2 \<and> length copy_shape = 2
    \<and> (\<forall>k<2. copy_shape ! k = min ([4, 5] ! k - src_start ! k) ([3, 3] ! k - dst_start ! k)
             \<and> copy_shape ! k = int (card (axis_interval [4, 5] [0, 2] k
                                             \<inter> axis_interval [3, 3] [2, 0] k))
             \<and> (src_start ! k = 0 \<or> dst_start ! k = 0)))"
proof -
  have h: "1 \<le> ndim tile_4x5" "ndim tile_3x3 = ndim tile_4x5"
    "length (shape tile_4x5) = ndim tile_4x5" "length (shape tile_3x3) = ndim tile_4x5"
    "length [0, 2 :: int] = ndim tile_4x5" "length [2, 0 :: int] = ndim tile_4x5"
    "\<forall>k<ndim tile_4x5. in_Index_range (shape tile_4x5) [0, 2] k
                          \<and> in_Index_range (shape tile_3x3) [2, 0] k"
    "\<forall>k<ndim tile_4x5. axis_interval (shape tile_4x5) [0, 2] k
                        \<inter> axis_interval (shape tile_3x3) [2, 0] k \<noteq> {}"
    by (simp_all add: all_less_two axis_interval_def in_Index_range_def is_Index_def)
  have n: "next_ret \<lparr>calls = [] :: StarpuVariableHandle call list, rets = []\<rparr> = 0"
    by (simp add: next_ret_def)
  have t: "take 2 (column_major_stride [4, 5]) = [1, 4]"
    "take 2 (column_major_stride [3, 3]) = [1, 3]"
    by (simp_all add: column_major_stride_def)
  have ns: "\<not> (\<exists>k<2::nat. separated [4, 5] [0, 2] [3, 3] [2, 0] k)"
    by (simp add: ex_less_two separated_def Index_wrap_def)
  have u: "[0..<2] = [0, 1::nat]" by (simp add: upt_rec)
  have w: "copy_intersection_work tile_4x5 [0, 2] tile_3x3 [2, 0] scratch_2
             \<lparr>calls = [], rets = []\<rparr>
     = (Inr (),
        \<lparr>calls = [Task_insert codelet_copy_rw
                    [STARPU_VALUE [2], STARPU_VALUE [2, 0], STARPU_VALUE [1, 4],
                     STARPU_VALUE [2, 1], STARPU_VALUE [0, 2], STARPU_VALUE [1, 3],
                     STARPU_BUFFER STARPU_R (handle tile_4x5),
                     STARPU_BUFFER STARPU_RW (handle tile_3x3),
                     STARPU_BUFFER STARPU_SCRATCH scratch_2,
                     STARPU_FLOPS 0] 0],
         rets = []\<rparr>)"
    using ns
    by (simp add: copy_intersection_work_closed enqueued_def copy_task_args_def n u t
        all_less_two axis_copy_shape_def axis_src_start_def axis_dst_start_def Index_wrap_def)
  from copy_intersection_work_intersection [OF h, of scratch_2 "\<lparr>calls = [], rets = []\<rparr>"]
  have "\<exists>src_start dst_start copy_shape cl m.
      copy_intersection_work tile_4x5 [0, 2] tile_3x3 [2, 0] scratch_2 \<lparr>calls = [], rets = []\<rparr>
        = (Inr (),
           \<lparr>calls = [Task_insert cl
                       [STARPU_VALUE [2], STARPU_VALUE src_start, STARPU_VALUE [1, 4],
                        STARPU_VALUE copy_shape, STARPU_VALUE dst_start, STARPU_VALUE [1, 3],
                        STARPU_BUFFER STARPU_R (handle tile_4x5),
                        STARPU_BUFFER m (handle tile_3x3),
                        STARPU_BUFFER STARPU_SCRATCH scratch_2,
                        STARPU_FLOPS 0] 0],
            rets = []\<rparr>)
    \<and> length src_start = 2 \<and> length dst_start = 2 \<and> length copy_shape = 2
    \<and> (\<forall>k<2. copy_shape ! k = min ([4, 5] ! k - src_start ! k) ([3, 3] ! k - dst_start ! k)
             \<and> copy_shape ! k = int (card (axis_interval [4, 5] [0, 2] k
                                             \<inter> axis_interval [3, 3] [2, 0] k))
             \<and> (src_start ! k = 0 \<or> dst_start ! k = 0))"
    unfolding n t example_tile_simps by simp blast
  with w show ?thesis by blast
qed



section \<open>Error paths, and the tile index of gather\<close>

lemma next_ret_mpi_transfer [simp]: "next_ret (mpi_transfer h d r rt) = next_ret rt"
  by (simp add: next_ret_def mpi_transfer_def)

lemma rets_mpi_transfer [simp]: "rets (mpi_transfer h d r rt) = rets rt"
  by (simp add: mpi_transfer_def)

lemma calls_mpi_transfer [simp]:
  "calls (mpi_transfer h d r rt) = calls rt @ [Mpi_transfer h d r]"
  by (simp add: mpi_transfer_def)

lemma submit_enqueued:
  "submit T num_iter num_elems num_steps gamma_0 momentum weight_decay lars_coefficient
      grad momentum_buffer p rt
   = (if next_ret rt \<noteq> 0
      then Inl (RuntimeError ''Error in lars_tiled_step task submission'') else Inr (),
      \<lparr>calls = calls rt @
         [Task_insert (codelet_of T)
            [STARPU_BUFFER STARPU_R grad,
             STARPU_BUFFER (if num_iter = 1 then STARPU_W else STARPU_RW) momentum_buffer,
             STARPU_BUFFER STARPU_RW p,
             STARPU_CL_ARGS (Args num_iter num_elems num_steps gamma_0 momentum weight_decay
                               lars_coefficient)]
            (next_ret rt)],
       rets = tl (rets rt)\<rparr>)"
  by (simp add: submit_def starpu_task_insert_def Let_def)

lemma gather_async_single:
  assumes "nelems (grid dst) = 1" and "shape src = shape dst" and "nelems (grid src) = 1"
    and "mpi_rank = mpi_get_rank (get_tile_handle dst 0)"
  shows "gather_async mpi_rank src dst rt
         = data_cpy_outcome (get_tile_handle dst 0) (get_tile_handle src 0)
             (mpi_get_rank (get_tile_handle dst 0)) mpi_rank rt"
  using assms
  by (simp add: gather_async_def data_cpy_outcome_def starpu_data_cpy_def Let_def
      mpi_flush_def mpi_transfer_def next_ret_def)

text \<open>
  Claim C6.  Every submission path raises at the failing enqueue and returns normally
  otherwise: whenever \<open>copy_intersection_work\<close> reaches its enqueue (\<open>ndim = 0\<close>, or
  no axis separates the tiles), \<open>submit\<close> of the LARS step is called, or
  \<open>gather_async\<close> takes its single-tile path on the node that owns the destination,
  the function makes exactly one enqueue call and throws a runtime error if and only
  if that call returns a nonzero code; nothing is called after a failed enqueue (in
  particular no flush), and with a zero code the function returns normally.
\<close>

theorem enqueue_failure_is_raised:
  "(ndim src = 0
      \<or> \<not> (\<exists>k<ndim src. separated (shape src) src_offset (shape dst) dst_offset k)
    \<longrightarrow> (\<exists>cl args. copy_intersection_work src src_offset dst dst_offset scratch rt
            = (if next_ret rt \<noteq> 0 then Inl (RuntimeError ''ret != 0'') else Inr (),
               \<lparr>calls = calls rt @ [Task_insert cl args (next_ret rt)],
                rets = tl (rets rt)\<rparr>)))
   \<and> (\<exists>cl args. submit T num_iter num_elems num_steps gamma momentum weight_decay
                   lars_coefficient grad_h momentum_buffer_h p_h rt'
         = (if next_ret rt' \<noteq> 0
            then Inl (RuntimeError ''Error in lars_tiled_step task submission'') else Inr (),
            \<lparr>calls = calls rt' @ [Task_insert cl args (next_ret rt')],
             rets = tl (rets rt')\<rparr>))
   \<and> (nelems (grid gdst) = 1 \<and> shape gsrc = shape gdst \<and> nelems (grid gsrc) = 1
        \<and> mpi_rank = mpi_get_rank (get_tile_handle gdst 0)
      \<longrightarrow> gather_async mpi_rank gsrc gdst rt'
          = (if next_ret rt' \<noteq> 0
             then (Inl (RuntimeError ''Error in starpu_data_cpy''),
                   \<lparr>calls = calls rt' @
                      [Mpi_transfer (get_tile_handle gsrc 0) mpi_rank mpi_rank,
                       Data_cpy (get_tile_handle gdst 0) (get_tile_handle gsrc 0) (next_ret rt')],
                    rets = tl (rets rt')\<rparr>)
             else (Inr (),
                   \<lparr>calls = calls rt' @
                      [Mpi_transfer (get_tile_handle gsrc 0) mpi_rank mpi_rank,
                       Data_cpy (get_tile_handle gdst 0) (get_tile_handle gsrc 0) 0,
                       Mpi_flush (get_tile_handle gdst 0)],
                    rets = tl (rets rt')\<rparr>)))"
proof (intro conjI impI)
  assume a: "ndim src = 0
      \<or> \<not> (\<exists>k<ndim src. separated (shape src) src_offset (shape dst) dst_offset k)"
  show "\<exists>cl args. copy_intersection_work src src_offset dst dst_offset scratch rt
            = (if next_ret rt \<noteq> 0 then Inl (RuntimeError ''ret != 0'') else Inr (),
               \<lparr>calls = calls rt @ [Task_insert cl args (next_ret rt)],
                rets = tl (rets rt)\<rparr>)"
  proof (cases "ndim src = 0")
    case True
    then show ?thesis
      unfolding copy_intersection_work_ndim0 [OF True] enqueued_def by blast
  next
    case False
    then have nd: "0 < ndim src" by simp
    from False a
    have ns: "\<not> (\<exists>k<ndim src. separated (shape src) src_offset (shape dst) dst_offset k)"
      by simp
    show ?thesis
      unfolding copy_intersection_work_closed [OF nd] enqueued_def using ns
      by (cases "\<forall>k<ndim src. axis_copy_shape (shape src) src_offset (shape dst) dst_offset k
                              = shape dst ! k") auto
  qed
next
  show "\<exists>cl args. submit T num_iter num_elems num_steps gamma momentum weight_decay
                   lars_coefficient grad_h momentum_buffer_h p_h rt'
         = (if next_ret rt' \<noteq> 0
            then Inl (RuntimeError ''Error in lars_tiled_step task submission'') else Inr (),
            \<lparr>calls = calls rt' @ [Task_insert cl args (next_ret rt')],
             rets = tl (rets rt')\<rparr>)"
    unfolding submit_enqueued by blast
next
  assume "nelems (grid gdst) = 1 \<and> shape gsrc = shape gdst \<and> nelems (grid gsrc) = 1
        \<and> mpi_rank = mpi_get_rank (get_tile_handle gdst 0)"
  then show "gather_async mpi_rank gsrc gdst rt'
          = (if next_ret rt' \<noteq> 0
             then (Inl (RuntimeError ''Error in starpu_data_cpy''),
                   \<lparr>calls = calls rt' @
                      [Mpi_transfer (get_tile_handle gsrc 0) mpi_rank mpi_rank,
                       Data_cpy (get_tile_handle gdst 0) (get_tile_handle gsrc 0) (next_ret rt')],
                    rets = tl (rets rt')\<rparr>)
             else (Inr (),
                   \<lparr>calls = calls rt' @
                      [Mpi_transfer (get_tile_handle gsrc 0) mpi_rank mpi_rank,
                       Data_cpy (get_tile_handle gdst 0) (get_tile_handle gsrc 0) 0,
                       Mpi_flush (get_tile_handle gdst 0)],
                    rets = tl (rets rt')\<rparr>))"
    using gather_async_single [of gdst gsrc mpi_rank rt']
    by (simp add: data_cpy_outcome_def)
qed

text \<open>
  Claim C5.  \<open>gather_async\<close> throws a runtime error and leaves the runtime untouched
  (no task, no transfer) whenever the destination grid has more than one tile or the
  shapes differ, and \<open>lars_tiled_step_async\<close> does so whenever the matrix shape of the
  parameter differs from that of the gradient or of the momentum buffer; a run that
  does touch the runtime has passed these checks.
\<close>

theorem shape_checks_before_submission:
  "(1 < nelems (grid dst) \<or> shape src \<noteq> shape dst
      \<longrightarrow> (\<exists>msg. gather_async mpi_rank src dst rt = (Inl (RuntimeError msg), rt)))
   \<and> (matrix_shape p \<noteq> matrix_shape grad \<or> matrix_shape p \<noteq> matrix_shape momentum_buffer
      \<longrightarrow> (\<exists>msg. lars_tiled_step_async T mpi_rank num_iter num_steps gamma momentum
                    weight_decay lars_coefficient grad momentum_buffer p rt
                  = (Inl (RuntimeError msg), rt)))
   \<and> (snd (gather_async mpi_rank src dst rt) \<noteq> rt
      \<longrightarrow> nelems (grid dst) = 1 \<and> shape src = shape dst)
   \<and> (snd (lars_tiled_step_async T mpi_rank num_iter num_steps gamma momentum
              weight_decay lars_coefficient grad momentum_buffer p rt) \<noteq> rt
      \<longrightarrow> matrix_shape p = matrix_shape grad \<and> matrix_shape p = matrix_shape momentum_buffer)"
  by (auto simp: gather_async_def lars_tiled_step_async_def)

lemma tile_carry_carry:
  assumes "length start = nd" and "\<forall>k<nd. start ! k = 0"
  shows "tile_carry nd gs index k
         = (case carry nd start strd gs (index, off) k of
              Inl e \<Rightarrow> Inl e
            | Inr (index', off') \<Rightarrow> Inr index')"
proof (induction "nd - k" arbitrary: k index off)
  case 0
  then have "nd \<le> k" by simp
  then show ?case by (subst tile_carry.simps, subst carry.simps) simp
next
  case (Suc m)
  then have k: "k < nd" by simp
  have s: "start ! k = 0" using assms(2) k by simp
  show ?case
  proof (cases "index ! k = gs ! k")
    case False
    then show ?thesis using k s by (subst tile_carry.simps, subst carry.simps) simp
  next
    case True
    show ?thesis
    proof (cases "nd \<le> k + 1")
      case True
      with \<open>index ! k = gs ! k\<close> k s show ?thesis
        by (subst tile_carry.simps, subst carry.simps) simp
    next
      case False
      have m: "m = nd - (k + 1)" using Suc.hyps(2) by simp
      show ?thesis
        using \<open>index ! k = gs ! k\<close> k s False
          Suc.hyps(1) [OF m, of "index[k := 0, k + 1 := index ! (k + 1) + 1]"
            "off + (strd ! (k + 1) - gs ! k * strd ! k)"]
        by (subst tile_carry.simps, subst carry.simps) simp
    qed
  qed
qed

lemma map2_add_zeros_left:
  "length p = n \<Longrightarrow> map2 (+) (replicate n (0::int)) p = p"
  by (intro nth_equalityI) simp_all

lemma tile_carry_next:
  assumes len: "length gs = nd" and nd: "0 < nd" and pos: "\<forall>k<nd. 1 \<le> gs ! k"
    and t: "int t + 1 < prod_list gs"
  shows "tile_carry nd gs ((box_index gs t)[0 := box_index gs t ! 0 + 1]) 0
         = Inr (box_index gs (t + 1))"
proof -
  let ?z = "replicate nd (0::int)"
  have lz: "length ?z = nd" by simp
  have s0: "replicate nd (1::int) ! 0 = 1" using nd by simp
  have lb: "length (box_index gs t) = nd" "length (box_index gs (t + 1)) = nd"
    using len by (simp_all add: box_index_def)
  note a = advance_correct [OF lz len nd pos s0 t]
  have "tile_carry nd gs ((box_index gs t)[0 := box_index gs t ! 0 + 1]) 0
        = (case carry nd ?z (replicate nd 1) gs
                  ((box_index gs t)[0 := box_index gs t ! 0 + 1],
                   index_to_linear (replicate nd 1) (box_index gs t) + 1) 0 of
              Inl e \<Rightarrow> Inl e
            | Inr (index', off') \<Rightarrow> Inr index')"
    by (rule tile_carry_carry) simp_all
  also have "\<dots> = Inr (box_index gs (t + 1))"
    using a [unfolded map2_add_zeros_left [OF lb(1)] map2_add_zeros_left [OF lb(2)]]
    by (simp only: sum.case prod.case)
  finally show ?thesis .
qed

lemma fold_update_all:
  "n \<le> length d \<Longrightarrow> fold (\<lambda>k d. d[k := f k]) [0..<n] d = map f [0..<n] @ drop n d"
proof (induction n)
  case 0
  then show ?case by simp
next
  case (Suc n)
  then have n: "n < length d" by simp
  have "fold (\<lambda>k d. d[k := f k]) [0..<Suc n] d = (map f [0..<n] @ drop n d)[n := f n]"
    using Suc by simp
  also have "\<dots> = map f [0..<n] @ (drop n d)[0 := f n]"
    by (simp add: list_update_append)
  also have "(drop n d)[0 := f n] = f n # drop (Suc n) d"
    using n by (simp add: Cons_nth_drop_Suc [symmetric])
  finally show ?case by simp
qed

lemma fold_update_map:
  "length d = n \<Longrightarrow> fold (\<lambda>k d. d[k := f k]) [0..<n] d = map f [0..<n]"
  using fold_update_all [of n d f] by simp

lemma next_ret_accepting: "set (rets rt) \<subseteq> {0} \<Longrightarrow> next_ret rt = 0"
  by (cases "rets rt") (auto simp: next_ret_def)

lemma subcopy_submit_accepting:
  assumes "set (rets rt) \<subseteq> {0}"
  shows "subcopy_submit nd src_start src_stride dst_start dst_stride copy_shape src dst scratch
           dst_mode rt
         = (Inr (),
            \<lparr>calls = calls rt @
               [Task_insert codelet_subcopy
                  [STARPU_VALUE [int nd],
                   STARPU_VALUE src_start, STARPU_VALUE src_stride,
                   STARPU_VALUE dst_start, STARPU_VALUE dst_stride,
                   STARPU_VALUE copy_shape,
                   STARPU_BUFFER STARPU_R src,
                   STARPU_BUFFER dst_mode dst,
                   STARPU_BUFFER STARPU_SCRATCH scratch] 0],
             rets = tl (rets rt)\<rparr>)"
  using next_ret_accepting [OF assms]
  by (simp add: subcopy_submit_def starpu_task_insert_def)

lemma gather_loop_closed:
  assumes nd: "ndim src = length (shape (grid src))"
    and ne: "nelems (grid src) = prod_list (shape (grid src))"
    and pos: "\<forall>k<ndim src. 1 \<le> shape (grid src) ! k"
    and nd0: "0 < ndim src"
    and i: "1 \<le> i" "int i \<le> nelems (grid src)"
    and acc: "set (rets rt) \<subseteq> {0}"
    and d: "length d = ndim src"
  shows "\<exists>d'. gather_loop (mpi_get_rank (get_tile_handle dst 0)) src (get_tile_handle dst 0)
           (get_tile_traits dst 0) (mpi_get_rank (get_tile_handle dst 0))
           (VariableHandle (2 * int (ndim src) * 8) STARPU_SCRATCH) (replicate (ndim src) 0)
           (int i) (box_index (shape (grid src)) (i - 1), d) rt
         = (Inr (box_index (shape (grid src)) (nat (nelems (grid src)) - 1), d'),
            \<lparr>calls = calls rt @
               concat (map (gather_tile_calls (mpi_get_rank (get_tile_handle dst 0)) src dst)
                        [i..<nat (nelems (grid src))]),
             rets = drop (nat (nelems (grid src)) - i) (rets rt)\<rparr>)"
  using i acc d
proof (induction "nat (nelems (grid src)) - i" arbitrary: i rt d)
  case 0
  then have e: "int i = nelems (grid src)" by simp
  then have n: "nat (nelems (grid src)) = i" by simp
  show ?case unfolding n by (subst gather_loop.simps) (simp add: e [symmetric])
next
  case (Suc m)
  let ?gs = "shape (grid src)"
  let ?r = "mpi_get_rank (get_tile_handle dst 0)"
  let ?N = "nat (nelems (grid src))"
  let ?sc = "VariableHandle (2 * int (ndim src) * 8) STARPU_SCRATCH"
  from Suc.hyps(2) have lt: "int i < nelems (grid src)" by simp
  have m: "m = ?N - (i + 1)" using Suc.hyps(2) by simp
  have t: "int (i - 1) + 1 < prod_list ?gs" using lt Suc.prems(1) ne by simp
  have c: "tile_carry (ndim src) ?gs
             ((box_index ?gs (i - 1))[0 := box_index ?gs (i - 1) ! 0 + 1]) 0
           = Inr (box_index ?gs i)"
    using tile_carry_next [OF nd [symmetric] nd0 pos t] Suc.prems(1) by simp
  let ?d = "map (\<lambda>k. box_index ?gs i ! k * basetile_shape src ! k) [0..<ndim src]"
  have f: "fold (\<lambda>k d. d[k := box_index ?gs i ! k * basetile_shape src ! k]) [0..<ndim src] d
           = ?d"
    by (rule fold_update_map [OF Suc.prems(4)])
  let ?rt1 = "mpi_transfer (get_tile_handle src (int i)) ?r ?r rt"
  have acc1: "set (rets ?rt1) \<subseteq> {0}" using Suc.prems(3) by simp
  let ?rt2 = "\<lparr>calls = calls rt @ gather_tile_calls ?r src dst i, rets = tl (rets rt)\<rparr>"
  have i0: "i \<noteq> 0" using Suc.prems(1) by simp
  have sub: "subcopy_submit (ndim src) (replicate (ndim src) 0)
               (stride (get_tile_traits src (int i))) ?d (stride (get_tile_traits dst 0))
               (shape (get_tile_traits src (int i))) (get_tile_handle src (int i))
               (get_tile_handle dst 0) ?sc STARPU_RW ?rt1
             = (Inr (), ?rt2)"
    using i0 by (simp add: subcopy_submit_accepting [OF acc1] gather_tile_calls_def box_index_def)
  have acc2: "set (rets ?rt2) \<subseteq> {0}"
    using Suc.prems(3) by (cases "rets rt") auto
  have ld: "length ?d = ndim src" by simp
  have i1: "1 \<le> i + 1" "int (i + 1) \<le> nelems (grid src)" using lt by simp_all
  from Suc.hyps(1) [OF m i1 acc2 ld]
  obtain d' where IH: "gather_loop ?r src (get_tile_handle dst 0) (get_tile_traits dst 0) ?r
           ?sc (replicate (ndim src) 0) (int (i + 1)) (box_index ?gs (i + 1 - 1), ?d) ?rt2
         = (Inr (box_index ?gs (?N - 1), d'),
            \<lparr>calls = calls ?rt2 @ concat (map (gather_tile_calls ?r src dst) [i + 1..<?N]),
             rets = drop (?N - (i + 1)) (rets ?rt2)\<rparr>)"
    by blast
  have step: "gather_loop ?r src (get_tile_handle dst 0) (get_tile_traits dst 0) ?r
           ?sc (replicate (ndim src) 0) (int i) (box_index ?gs (i - 1), d) rt
        = gather_loop ?r src (get_tile_handle dst 0) (get_tile_traits dst 0) ?r
           ?sc (replicate (ndim src) 0) (int i + 1) (box_index ?gs i, ?d) ?rt2"
    by (subst gather_loop.simps) (simp only: lt if_True c sum.case Let_def f sub prod.case refl)
  have up: "[i..<?N] = i # [i + 1..<?N]" using lt by (simp add: upt_conv_Cons)
  have dr: "drop (?N - (i + 1)) (tl (rets rt)) = drop (?N - i) (rets rt)"
    using lt by (simp add: drop_Suc [symmetric] Suc_diff_Suc)
  have "int i + 1 = int (i + 1)" "i + 1 - 1 = i" by simp_all
  with step IH up dr show ?case by simp
qed

lemma prod_list_ge_one:
  "\<forall>x\<in>set xs. (1::int) \<le> x \<Longrightarrow> 1 \<le> prod_list xs"
proof (induction xs)
  case Nil
  then show ?case by simp
next
  case (Cons x xs)
  then have "1 \<le> x" "1 \<le> prod_list xs" by simp_all
  then have "1 * 1 \<le> x * prod_list xs" by (intro mult_mono) simp_all
  then show ?case by simp
qed

lemma gather_first_start:
  assumes "length gs = nd"
  shows "map (\<lambda>k. linear_to_index gs 0 ! k * b ! k) [0..<nd] = replicate nd 0"
  using assms by (intro nth_equalityI) (simp_all add: linear_to_index_zero)

text \<open>
  Claim C9.  In the multi-tile path of \<open>gather_async\<close>, on the node that owns the
  destination tile and with every enqueue accepted: the calls made are, for every
  linear tile index \<open>i\<close> of the source grid in increasing order, the transfer of tile
  \<open>i\<close> and one subcopy task whose \<open>dst_tile_start[k]\<close> is
  \<open>linear_to_index(i)[k] * src.basetile_shape[k]\<close>, with Write access to the
  destination for \<open>i = 0\<close> and ReadWrite access for every later tile, followed by the
  flush.  The index kept by increment and carry is \<open>linear_to_index(i)\<close>: it starts
  at \<open>linear_to_index(0)\<close>, all zeros, and the carry loop takes the index of tile
  \<open>i - 1\<close> to the index of tile \<open>i\<close>.
\<close>

theorem gather_async_tile_index:
  assumes nd: "ndim src = length (shape (grid src))"
    and ne: "nelems (grid src) = prod_list (shape (grid src))"
    and pos: "\<forall>k<ndim src. 1 \<le> shape (grid src) ! k"
    and single: "nelems (grid dst) = 1"
    and shp: "shape src = shape dst"
    and multi: "nelems (grid src) \<noteq> 1"
    and rank: "mpi_rank = mpi_get_rank (get_tile_handle dst 0)"
    and acc: "set (rets rt) \<subseteq> {0}"
  shows "gather_async mpi_rank src dst rt
         = (Inr (),
            \<lparr>calls = calls rt @
               concat (map (gather_tile_calls mpi_rank src dst)
                        [0..<nat (nelems (grid src))])
               @ [Mpi_flush (get_tile_handle dst 0)],
             rets = drop (nat (nelems (grid src))) (rets rt)\<rparr>)
       \<and> linear_to_index (shape (grid src)) 0 = replicate (ndim src) 0
       \<and> (\<forall>i. 1 \<le> i \<and> int i < nelems (grid src) \<longrightarrow>
             tile_carry (ndim src) (shape (grid src))
               ((linear_to_index (shape (grid src)) (int (i - 1)))
                   [0 := linear_to_index (shape (grid src)) (int (i - 1)) ! 0 + 1]) 0
             = Inr (linear_to_index (shape (grid src)) (int i)))"
proof -
  let ?gs = "shape (grid src)"
  let ?r = "mpi_get_rank (get_tile_handle dst 0)"
  let ?N = "nat (nelems (grid src))"
  let ?sc = "VariableHandle (2 * int (ndim src) * 8) STARPU_SCRATCH"
  let ?z = "replicate (ndim src) (0::int)"
  have posall: "\<forall>x\<in>set ?gs. 1 \<le> x"
    using pos nd all_nth_set [of ?gs "ndim src" "\<lambda>x. 1 \<le> x"] by simp
  have nd0: "0 < ndim src"
  proof (rule ccontr)
    assume "\<not> 0 < ndim src"
    then have "?gs = []" using nd by simp
    then show False using ne multi by simp
  qed
  have N1: "1 \<le> nelems (grid src)" using prod_list_ge_one [OF posall] ne by simp
  then have N2: "int 1 \<le> nelems (grid src)" by simp
  have zero: "linear_to_index ?gs 0 = ?z" by (simp add: linear_to_index_zero nd)
  have carry: "tile_carry (ndim src) ?gs
               ((linear_to_index ?gs (int (i - 1)))
                   [0 := linear_to_index ?gs (int (i - 1)) ! 0 + 1]) 0
             = Inr (linear_to_index ?gs (int i))"
    if i: "1 \<le> i \<and> int i < nelems (grid src)" for i
  proof -
    have t: "int (i - 1) + 1 < prod_list ?gs" using i ne by simp
    from tile_carry_next [OF nd [symmetric] nd0 pos t] i show ?thesis
      by (simp add: box_index_def)
  qed
  let ?rt1 = "mpi_transfer (get_tile_handle src 0) ?r ?r rt"
  have acc1: "set (rets ?rt1) \<subseteq> {0}" using acc by simp
  let ?rt2 = "\<lparr>calls = calls rt @ gather_tile_calls ?r src dst 0, rets = tl (rets rt)\<rparr>"
  have first: "subcopy_submit (ndim src) ?z (stride (get_tile_traits src 0)) ?z
                 (stride (get_tile_traits dst 0)) (shape (get_tile_traits src 0))
                 (get_tile_handle src 0) (get_tile_handle dst 0) ?sc STARPU_W ?rt1
               = (Inr (), ?rt2)"
    by (simp add: subcopy_submit_accepting [OF acc1] gather_tile_calls_def
        gather_first_start [OF nd [symmetric]])
  have acc2: "set (rets ?rt2) \<subseteq> {0}" using acc by (cases "rets rt") auto
  have b0: "box_index ?gs (1 - 1) = ?z" by (simp add: box_index_def zero)
  from gather_loop_closed [OF nd ne pos nd0 _ N2 acc2, of ?z dst]
  obtain d' where loop: "gather_loop ?r src (get_tile_handle dst 0) (get_tile_traits dst 0) ?r
           ?sc ?z (int 1) (box_index ?gs (1 - 1), ?z) ?rt2
         = (Inr (box_index ?gs (?N - 1), d'),
            \<lparr>calls = calls ?rt2 @ concat (map (gather_tile_calls ?r src dst) [1..<?N]),
             rets = drop (?N - 1) (rets ?rt2)\<rparr>)"
    by auto
  have up: "[0..<?N] = 0 # [1..<?N]" using N1 by (simp add: upt_conv_Cons)
  have dr: "drop (?N - Suc 0) (tl (rets rt)) = drop ?N (rets rt)"
    using N1 by (simp add: drop_Suc [symmetric])
  have run: "gather_async mpi_rank src dst rt
         = (Inr (),
            \<lparr>calls = calls rt @ concat (map (gather_tile_calls mpi_rank src dst) [0..<?N])
               @ [Mpi_flush (get_tile_handle dst 0)],
             rets = drop ?N (rets rt)\<rparr>)"
    unfolding gather_async_def rank [symmetric, THEN sym]
    using single shp multi
    apply (simp only: simp_thms if_False if_True Let_def first prod.case sum.case
        loop [unfolded b0 of_nat_1])
    apply (simp add: mpi_flush_def up dr rank)
    done
  from run zero carry show ?thesis by blast
qed

lemma make_Tensor_simps [simp]:
  "ndim (make_Tensor shp b hs) = length shp"
  "shape (make_Tensor shp b hs) = shp"
  "matrix_shape (make_Tensor shp b hs) = matrix_shapes shp"
  "basetile_shape (make_Tensor shp b hs) = b"
  "grid (make_Tensor shp b hs) = make_TileTraits (map2 (\<lambda>s b. (s + b - 1) div b) shp b)"
  "tile_handles (make_Tensor shp b hs) = hs"
  by (simp_all add: make_Tensor_def)

lemma make_TileTraits_simps [simp]:
  "ndim (make_TileTraits shp) = length shp"
  "shape (make_TileTraits shp) = shp"
  "stride (make_TileTraits shp) = column_major_stride shp"
  "nelems (make_TileTraits shp) = prod_list shp"
  by (simp_all add: make_TileTraits_def)

theorem gather_async_tile_index_witness:
  "gather_async 0 tensor_two_tiles tensor_one_tile \<lparr>calls = [], rets = []\<rparr>
     = (Inr (),
        \<lparr>calls = calls \<lparr>calls = [], rets = []\<rparr> @
           concat (map (gather_tile_calls 0 tensor_two_tiles tensor_one_tile)
                    [0..<nat (nelems (grid tensor_two_tiles))])
           @ [Mpi_flush (get_tile_handle tensor_one_tile 0)],
         rets = drop (nat (nelems (grid tensor_two_tiles)))
                  (rets (\<lparr>calls = [], rets = []\<rparr> :: Handle runtime))\<rparr>)
   \<and> nat (nelems (grid tensor_two_tiles)) = 2
   \<and> linear_to_index (shape (grid tensor_two_tiles)) 1 = [1, 0]"
proof -
  have h: "ndim tensor_two_tiles = length (shape (grid tensor_two_tiles))"
    "nelems (grid tensor_two_tiles) = prod_list (shape (grid tensor_two_tiles))"
    "\<forall>k<ndim tensor_two_tiles. 1 \<le> shape (grid tensor_two_tiles) ! k"
    "nelems (grid tensor_one_tile) = 1"
    "shape tensor_two_tiles = shape tensor_one_tile"
    "nelems (grid tensor_two_tiles) \<noteq> 1"
    "0 = mpi_get_rank (get_tile_handle tensor_one_tile 0)"
    "set (rets (\<lparr>calls = [], rets = []\<rparr> :: Handle runtime)) \<subseteq> {0}"
    by (simp_all add: tensor_two_tiles_def tensor_one_tile_def get_tile_handle_def
        all_less_two All_less_Suc)
  have e: "nat (nelems (grid tensor_two_tiles)) = 2"
    "linear_to_index (shape (grid tensor_two_tiles)) 1 = [1, 0]"
    by (simp_all add: tensor_two_tiles_def)
  note g = gather_async_tile_index [OF h]
  show ?thesis
    apply (intro conjI)
      apply (rule g [THEN conjunct1])
     apply (rule e(1))
    apply (rule e(2))
    done
qed

theorem shape_checks_before_submission_witness:
  "(\<exists>msg. gather_async 0 tensor_two_tiles tensor_two_tiles \<lparr>calls = [], rets = []\<rparr>
             = (Inl (RuntimeError msg), \<lparr>calls = [], rets = []\<rparr>))
   \<and> (\<exists>msg. lars_tiled_step_async fp32_t 0 1 10 (1 / 10) (9 / 10) 0 (1 / 1000)
               tensor_transposed tensor_other_tile tensor_one_tile \<lparr>calls = [], rets = []\<rparr>
             = (Inl (RuntimeError msg), \<lparr>calls = [], rets = []\<rparr>))
   \<and> (nelems (grid tensor_one_tile) = 1 \<and> shape tensor_other_tile = shape tensor_one_tile)
   \<and> (matrix_shape tensor_one_tile = matrix_shape tensor_other_tile
      \<and> matrix_shape tensor_one_tile = matrix_shape tensor_other_tile)"
proof -
  have a: "1 < nelems (grid tensor_two_tiles) \<or> shape tensor_two_tiles \<noteq> shape tensor_two_tiles"
    by (simp add: tensor_two_tiles_def)
  have b: "matrix_shape tensor_one_tile \<noteq> matrix_shape tensor_transposed
           \<or> matrix_shape tensor_one_tile \<noteq> matrix_shape tensor_other_tile"
    by (simp add: tensor_one_tile_def tensor_transposed_def matrix_shapes_def)
  have c: "snd (gather_async 0 tensor_other_tile tensor_one_tile \<lparr>calls = [], rets = []\<rparr>)
             \<noteq> \<lparr>calls = [], rets = []\<rparr>"
    by (simp add: gather_async_def tensor_other_tile_def tensor_one_tile_def
        get_tile_handle_def starpu_data_cpy_def mpi_flush_def mpi_transfer_def next_ret_def
        Let_def)
  have d: "snd (lars_tiled_step_async fp32_t 0 1 10 (1 / 10) (9 / 10) 0 (1 / 1000)
               tensor_other_tile tensor_other_tile tensor_one_tile \<lparr>calls = [], rets = []\<rparr>)
             \<noteq> \<lparr>calls = [], rets = []\<rparr>"
    by (simp add: lars_tiled_step_async_def lars_loop.simps tensor_other_tile_def
        tensor_one_tile_def get_tile_handle_def submit_def starpu_task_insert_def
        mpi_flush_def mpi_transfer_def next_ret_def Let_def)
  note t1 = shape_checks_before_submission
    [where src = tensor_two_tiles and dst = tensor_two_tiles and mpi_rank = 0
       and rt = "\<lparr>calls = [], rets = []\<rparr>" and p = tensor_one_tile
       and grad = tensor_transposed and momentum_buffer = tensor_other_tile and T = fp32_t
       and num_iter = 1 and num_steps = 10 and gamma = "1 / 10" and momentum = "9 / 10"
       and weight_decay = 0 and lars_coefficient = "1 / 1000"]
  note t2 = shape_checks_before_submission
    [where src = tensor_other_tile and dst = tensor_one_tile and mpi_rank = 0
       and rt = "\<lparr>calls = [], rets = []\<rparr>" and p = tensor_one_tile
       and grad = tensor_other_tile and momentum_buffer = tensor_other_tile and T = fp32_t
       and num_iter = 1 and num_steps = 10 and gamma = "1 / 10" and momentum = "9 / 10"
       and weight_decay = 0 and lars_coefficient = "1 / 1000"]
  note c1 = t1 [THEN conjunct1, rule_format, OF a]
  note c2 = t1 [THEN conjunct2, THEN conjunct1, rule_format, OF b]
  note c3 = t2 [THEN conjunct2, THEN conjunct2, THEN conjunct1, rule_format, OF c]
  note c4 = t2 [THEN conjunct2, THEN conjunct2, THEN conjunct2, rule_format, OF d]
  show ?thesis by (rule conjI [OF c1 conjI [OF c2 conjI [OF c3 c4]]])
qed

theorem enqueue_failure_is_raised_witness:
  "(\<exists>cl args. copy_intersection_work tile_4x5 [0, 2] tile_3x3 [2, 0] scratch_2
                 \<lparr>calls = [], rets = [3]\<rparr>
               = (Inl (RuntimeError ''ret != 0''),
                  \<lparr>calls = [Task_insert cl args 3], rets = []\<rparr>))
   \<and> (\<exists>cl args. submit fp64_t 2 12 10 (1 / 10) (9 / 10) 0 (1 / 1000)
                   (TileHandle 5 0) (TileHandle 6 0) (TileHandle 7 0)
                   \<lparr>calls = [], rets = [0, 4]\<rparr>
               = (Inr (), \<lparr>calls = [Task_insert cl args 0], rets = [4]\<rparr>))
   \<and> gather_async 0 tensor_other_tile tensor_one_tile \<lparr>calls = [], rets = [5]\<rparr>
       = (Inl (RuntimeError ''Error in starpu_data_cpy''),
          \<lparr>calls = [Mpi_transfer (TileHandle 3 0) 0 0,
                    Data_cpy (TileHandle 2 0) (TileHandle 3 0) 5],
           rets = []\<rparr>)"
proof -
  have a: "ndim tile_4x5 = 0
      \<or> \<not> (\<exists>k<ndim tile_4x5. separated (shape tile_4x5) [0, 2] (shape tile_3x3) [2, 0] k)"
    by (simp add: ex_less_two separated_def Index_wrap_def)
  have b: "nelems (grid tensor_one_tile) = 1 \<and> shape tensor_other_tile = shape tensor_one_tile
        \<and> nelems (grid tensor_other_tile) = 1
        \<and> 0 = mpi_get_rank (get_tile_handle tensor_one_tile 0)"
    by (simp add: tensor_other_tile_def tensor_one_tile_def get_tile_handle_def)
  have n: "next_ret \<lparr>calls = [] :: StarpuVariableHandle call list, rets = [3]\<rparr> = 3"
    "next_ret \<lparr>calls = [] :: Handle call list, rets = [0, 4]\<rparr> = 0"
    "next_ret \<lparr>calls = [] :: Handle call list, rets = [5]\<rparr> = 5"
    by (simp_all add: next_ret_def)
  have g: "get_tile_handle tensor_other_tile 0 = TileHandle 3 0"
    "get_tile_handle tensor_one_tile 0 = TileHandle 2 0"
    by (simp_all add: tensor_other_tile_def tensor_one_tile_def get_tile_handle_def)
  note t = enqueue_failure_is_raised
    [where src = tile_4x5 and dst = tile_3x3 and src_offset = "[0, 2]"
       and dst_offset = "[2, 0]" and scratch = scratch_2
       and rt = "\<lparr>calls = [], rets = [3]\<rparr>"
       and T = fp64_t and num_iter = 2 and num_elems = 12 and num_steps = 10
       and gamma = "1 / 10" and momentum = "9 / 10" and weight_decay = 0
       and lars_coefficient = "1 / 1000" and grad_h = "TileHandle 5 0"
       and momentum_buffer_h = "TileHandle 6 0" and p_h = "TileHandle 7 0"
       and rt' = "\<lparr>calls = [], rets = [0, 4]\<rparr>"]
  note u = enqueue_failure_is_raised
    [where gsrc = tensor_other_tile and gdst = tensor_one_tile and mpi_rank = 0
       and rt' = "\<lparr>calls = [], rets = [5]\<rparr>"]
  from t a have c1: "\<exists>cl args. copy_intersection_work tile_4x5 [0, 2] tile_3x3 [2, 0] scratch_2
                 \<lparr>calls = [], rets = [3]\<rparr>
               = (Inl (RuntimeError ''ret != 0''),
                  \<lparr>calls = [Task_insert cl args 3], rets = []\<rparr>)"
    by (simp add: n)
  from t have c2: "\<exists>cl args. submit fp64_t 2 12 10 (1 / 10) (9 / 10) 0 (1 / 1000)
                   (TileHandle 5 0) (TileHandle 6 0) (TileHandle 7 0)
                   \<lparr>calls = [], rets = [0, 4]\<rparr>
               = (Inr (), \<lparr>calls = [Task_insert cl args 0], rets = [4]\<rparr>)"
    by (simp add: n)
  from u b have c3: "gather_async 0 tensor_other_tile tensor_one_tile \<lparr>calls = [], rets = [5]\<rparr>
       = (Inl (RuntimeError ''Error in starpu_data_cpy''),
          \<lparr>calls = [Mpi_transfer (TileHandle 3 0) 0 0,
                    Data_cpy (TileHandle 2 0) (TileHandle 3 0) 5],
           rets = []\<rparr>)"
    by (simp add: n g)
  show ?thesis by (rule conjI [OF c1 conjI [OF c2 c3]])
qed

section \<open>The masking of negative infinity in maxsumexp\<close>

lemma fold_masked_skip:
  "fold (masked_update A) xs st
     = fold (update_max_sum A) (filter (\<lambda>x. \<not> fp_isinf A x) xs) st"
  by (induction xs arbitrary: st) (simp_all add: masked_update_def)

lemma fold_masked_leading:
  assumes "ieee_mask A ninf xs"
  shows "fold (masked_update A) xs (ninf, fp_one A)
           = (case filter (\<lambda>x. \<not> fp_isinf A x) xs of
                [] \<Rightarrow> (ninf, fp_one A)
              | v # vs \<Rightarrow> fold (update_max_sum A) vs (v, fp_one A))"
  using assms
proof (induction xs)
  case Nil
  then show ?case by simp
next
  case (Cons x xs)
  have m: "ieee_mask A ninf xs" using Cons.prems by (simp add: ieee_mask_def)
  show ?case
  proof (cases "fp_isinf A x")
    case True
    then show ?thesis using Cons.IH [OF m] by (simp add: masked_update_def)
  next
    case False
    then have "fp_less A ninf x" "fp_exp A (fp_sub A ninf x) = fp_zero A"
      "fp_add A (fp_mul A (fp_one A) (fp_zero A)) (fp_one A) = fp_one A"
      using Cons.prems by (simp_all add: ieee_mask_def)
    then have "masked_update A x (ninf, fp_one A) = (x, fp_one A)"
      using False by (simp add: masked_update_def)
    then show ?thesis using False by (simp add: fold_masked_skip)
  qed
qed

lemma fst_fold_update:
  "fst (fold (update_max_sum A) xs (v, s)) \<in> insert v (set xs)"
proof (induction xs arbitrary: v s)
  case Nil
  then show ?case by simp
next
  case (Cons x xs)
  show ?case
  proof (cases "fp_less A v x")
    case True
    then show ?thesis
      using Cons.IH [of x "fp_add A (fp_mul A s (fp_exp A (fp_sub A v x))) (fp_one A)"]
      by auto
  next
    case False
    then show ?thesis
      using Cons.IH [of v "fp_add A s (fp_exp A (fp_sub A x v))"] by auto
  qed
qed

lemma slice_pair_masked:
  assumes m: "ieee_mask A ninf vals" and ne: "vals \<noteq> []"
  shows "filter (\<lambda>x. x \<noteq> ninf) vals = filter (\<lambda>x. \<not> fp_isinf A x) vals"
    and "filter (\<lambda>x. x \<noteq> ninf) vals = [] \<Longrightarrow> fp_isinf A (fst (slice_pair A vals))"
    and "filter (\<lambda>x. x \<noteq> ninf) vals \<noteq> [] \<Longrightarrow>
           slice_pair A vals = max_sumexp A (filter (\<lambda>x. x \<noteq> ninf) vals)
           \<and> \<not> fp_isinf A (fst (slice_pair A vals))"
proof -
  let ?nm = "filter (\<lambda>x. \<not> fp_isinf A x) vals"
  show eq: "filter (\<lambda>x. x \<noteq> ninf) vals = ?nm"
    using m by (intro filter_cong) (auto simp: ieee_mask_def)
  obtain x xs where v: "vals = x # xs" using ne by (cases vals) auto
  have mx: "ieee_mask A ninf xs" using m v by (simp add: ieee_mask_def)
  have inf: "fp_isinf A ninf" using m by (simp add: ieee_mask_def)
  {
    assume "filter (\<lambda>x. x \<noteq> ninf) vals = []"
    then have e: "?nm = []" using eq by simp
    then have x: "fp_isinf A x" and xs: "filter (\<lambda>x. \<not> fp_isinf A x) xs = []"
      using v by (auto split: if_splits)
    then have "x = ninf" using m v by (simp add: ieee_mask_def)
    then have "slice_pair A vals = (ninf, fp_one A)"
      using fold_masked_leading [OF mx] xs by (simp add: slice_pair_def v)
    then show "fp_isinf A (fst (slice_pair A vals))" using inf by simp
  }
  {
    assume "filter (\<lambda>x. x \<noteq> ninf) vals \<noteq> []"
    then have n: "?nm \<noteq> []" using eq by simp
    have "slice_pair A vals = max_sumexp A ?nm"
    proof (cases "fp_isinf A x")
      case False
      then show ?thesis
        by (simp add: slice_pair_def max_sumexp_def v fold_masked_skip)
    next
      case True
      then have "x = ninf" using m v by (simp add: ieee_mask_def)
      moreover obtain w ws where w: "filter (\<lambda>x. \<not> fp_isinf A x) xs = w # ws"
        using n True v by (cases "filter (\<lambda>x. \<not> fp_isinf A x) xs") auto
      ultimately show ?thesis
        using fold_masked_leading [OF mx] True
        by (simp add: slice_pair_def max_sumexp_def v)
    qed
    moreover have "\<not> fp_isinf A (fst (max_sumexp A ?nm))"
    proof -
      obtain w ws where w: "?nm = w # ws" using n by (cases ?nm) auto
      have "fst (max_sumexp A ?nm) \<in> set ?nm"
        using fst_fold_update [of A ws w "fp_one A"] by (simp add: max_sumexp_def w)
      then show ?thesis by simp
    qed
    ultimately show "slice_pair A vals = max_sumexp A (filter (\<lambda>x. x \<noteq> ninf) vals)
           \<and> \<not> fp_isinf A (fst (slice_pair A vals))"
      using eq by simp
  }
qed

lemma slice_position:
  fixes m n k i1 i2 j :: int
  assumes "0 \<le> i1" "i1 < m" "0 \<le> i2" "i2 < n" "0 \<le> j" "j < k"
  shows "0 \<le> i2 * (m * k) + i1 + j * m" and "i2 * (m * k) + i1 + j * m < m * k * n"
proof -
  have mk: "0 \<le> m * k" using assms by simp
  have "0 \<le> i2 * (m * k)" using assms mk by simp
  moreover have "0 \<le> j * m" using assms by simp
  ultimately show "0 \<le> i2 * (m * k) + i1 + j * m" using assms by linarith
  have "i2 * (m * k) \<le> (n - 1) * (m * k)"
    using assms mk by (intro mult_right_mono) simp_all
  moreover have "j * m \<le> (k - 1) * m"
    using assms by (intro mult_right_mono) simp_all
  ultimately have "i2 * (m * k) + i1 + j * m \<le> (n - 1) * (m * k) + (m - 1) + (k - 1) * m"
    using assms by linarith
  also have "\<dots> = m * k * n - 1" by (simp add: algebra_simps)
  finally show "i2 * (m * k) + i1 + j * m < m * k * n" by simp
qed

lemma slice_loop_fold:
  assumes "\<forall>j. i \<le> j \<and> j < K \<longrightarrow> 0 \<le> base + int j * m \<and> base + int j * m < int (length src)"
    and "i \<le> K"
  shows "slice_loop A m (int K) src base (int i) st
         = Inr (fold (masked_update A) (map (\<lambda>j. src ! nat (base + int j * m)) [i..<K]) st)"
  using assms
proof (induction "K - i" arbitrary: i st)
  case 0
  then have "i = K" by simp
  then show ?case by (subst slice_loop.simps) simp
next
  case (Suc d)
  then have lt: "i < K" by simp
  have d: "d = K - (i + 1)" using Suc.hyps(2) by simp
  have b: "0 \<le> base + int i * m" "base + int i * m < int (length src)"
    using Suc.prems(1) lt by simp_all
  have r: "\<forall>j. i + 1 \<le> j \<and> j < K \<longrightarrow>
             0 \<le> base + int j * m \<and> base + int j * m < int (length src)"
    using Suc.prems(1) by simp
  have i1: "i + 1 \<le> K" using lt by simp
  have up: "[i..<K] = i # [i + 1..<K]" using lt by (simp add: upt_conv_Cons)
  have "slice_loop A m (int K) src base (int i) st
        = slice_loop A m (int K) src base (int (i + 1))
            (masked_update A (src ! nat (base + int i * m)) st)"
    using lt b by (subst slice_loop.simps) (simp add: masked_update_def Let_def add.commute)
  also have "\<dots> = Inr (fold (masked_update A)
                        (map (\<lambda>j. src ! nat (base + int j * m)) [i + 1..<K])
                        (masked_update A (src ! nat (base + int i * m)) st))"
    by (rule Suc.hyps(1) [OF d r i1])
  finally show ?case by (simp add: up)
qed

lemma slice_body_closed:
  assumes "0 \<le> i1" "i1 < m" "0 \<le> i2" "i2 < n" "0 < K"
    and "int (length src) = m * int K * n"
  shows "slice_body A m (int K) src i2 i1 dst_offset maxsumexp
         = save_result A (slice_pair A (slice_values src m (int K) i1 i2)) dst_offset maxsumexp"
proof -
  let ?base = "i2 * (m * int K) + i1"
  have pos: "0 \<le> ?base + int j * m \<and> ?base + int j * m < int (length src)" if "j < K" for j
    using slice_position [OF assms(1-4), of "int j" "int K"] that assms(6) by simp
  have b: "0 \<le> ?base" "?base < int (length src)"
    using pos [of 0] assms(5) by simp_all
  have l: "slice_loop A m (int K) src ?base (int 1) (src ! nat ?base, fp_one A)
           = Inr (fold (masked_update A)
                    (map (\<lambda>j. src ! nat (?base + int j * m)) [1..<K])
                    (src ! nat ?base, fp_one A))"
    using pos assms(5) by (intro slice_loop_fold) simp_all
  have up: "[0..<K] = 0 # [1..<K]" using assms(5) by (simp add: upt_conv_Cons)
  have sp: "slice_pair A (slice_values src m (int K) i1 i2)
            = fold (masked_update A)
                (map (\<lambda>j. src ! nat (?base + int j * m)) [1..<K])
                (src ! nat ?base, fp_one A)"
    by (simp add: slice_pair_def slice_values_def up)
  show ?thesis
    unfolding slice_body_def Let_def sp
    using b l by simp
qed

lemma length_expected_out [simp]: "length (expected_out A m k src old c) = length old"
  by (simp add: expected_out_def)

lemma expected_out_zero: "expected_out A m k src old 0 = old"
  by (simp add: expected_out_def map_nth)

lemma list_update_keep:
  "i \<noteq> j \<Longrightarrow> xs[i := v, j := xs ! j] = xs[i := v]"
  by (metis list_update_id list_update_swap)

lemma save_result_pair:
  assumes "2 * q + 1 < length buf"
  shows "save_result A P (int (2 * q)) buf
         = Inr (buf[2 * q := fst (if fp_isinf A (fst P) then (buf ! (2 * q), buf ! (2 * q + 1))
                                  else accumulate A P (buf ! (2 * q), buf ! (2 * q + 1))),
                    2 * q + 1 := snd (if fp_isinf A (fst P) then (buf ! (2 * q), buf ! (2 * q + 1))
                                      else accumulate A P (buf ! (2 * q), buf ! (2 * q + 1)))])"
proof -
  obtain maxv sumv where P: "P = (maxv, sumv)" by (cases P)
  have n: "nat (int (2 * q)) = 2 * q" "nat (int (2 * q) + 1) = 2 * q + 1" by simp_all
  have b: "\<not> (int (2 * q) < 0 \<or> int (length buf) \<le> int (2 * q) + 1)" using assms by simp
  have id: "buf[2 * q := buf ! (2 * q)] = buf" by simp
  show ?thesis
    unfolding P save_result.simps n
    using b by (simp add: Let_def id list_update_keep)
qed

lemma expected_out_Suc:
  assumes "2 * q + 1 < length old"
  shows "expected_out A m k src old (Suc q)
         = (expected_out A m k src old q)
             [2 * q := fst (new_pair A m k src old q),
              2 * q + 1 := snd (new_pair A m k src old q)]"
proof (rule nth_equalityI)
  show "length (expected_out A m k src old (Suc q))
        = length ((expected_out A m k src old q)
             [2 * q := fst (new_pair A m k src old q),
              2 * q + 1 := snd (new_pair A m k src old q)])"
    by simp
next
  fix j assume "j < length (expected_out A m k src old (Suc q))"
  then have j: "j < length old" by simp
  consider "j = 2 * q" | "j = 2 * q + 1" | "j < 2 * q" | "2 * q + 1 < j" by linarith
  then show "expected_out A m k src old (Suc q) ! j
        = (expected_out A m k src old q)
             [2 * q := fst (new_pair A m k src old q),
              2 * q + 1 := snd (new_pair A m k src old q)] ! j"
  proof cases
    case 1
    then show ?thesis using j assms by (simp add: expected_out_def)
  next
    case 2
    then show ?thesis using j assms by (simp add: expected_out_def)
  next
    case 3
    then show ?thesis using j assms by (simp add: expected_out_def)
  next
    case 4
    then show ?thesis using j assms by (simp add: expected_out_def)
  qed
qed

lemma slice_step:
  assumes M: "i1 < M" and N: "i2 < N" and K: "0 < K"
    and src: "int (length src) = int M * int K * int N"
    and old: "length old = 2 * M * N"
  shows "slice_body A (int M) (int K) src (int i2) (int i1) (int (2 * (i2 * M + i1)))
           (expected_out A (int M) (int K) src old (i2 * M + i1))
         = Inr (expected_out A (int M) (int K) src old (Suc (i2 * M + i1)))"
proof -
  let ?q = "i2 * M + i1"
  let ?buf = "expected_out A (int M) (int K) src old ?q"
  have "?q < i2 * M + M" using M by simp
  also have "\<dots> = (i2 + 1) * M" by simp
  also have "\<dots> \<le> N * M" using N by (intro mult_right_mono) simp_all
  finally have q: "?q < M * N" by (simp add: mult.commute)
  then have lq: "2 * ?q + 1 < length old" using old by simp
  then have lb: "2 * ?q + 1 < length ?buf" by simp
  have md: "int ?q mod int M = int i1" "int ?q div int M = int i2"
    using M by (simp_all add: zmod_int [symmetric] zdiv_int [symmetric])
  have at: "?buf ! (2 * ?q) = old ! (2 * ?q)" "?buf ! (2 * ?q + 1) = old ! (2 * ?q + 1)"
    using lq by (simp_all add: expected_out_def)
  have np: "(if fp_isinf A (fst (slice_pair A (slice_values src (int M) (int K) (int i1) (int i2))))
             then (?buf ! (2 * ?q), ?buf ! (2 * ?q + 1))
             else accumulate A (slice_pair A (slice_values src (int M) (int K) (int i1) (int i2)))
                    (?buf ! (2 * ?q), ?buf ! (2 * ?q + 1)))
            = new_pair A (int M) (int K) src old ?q"
    by (simp only: new_pair_def md at Let_def)
  have "slice_body A (int M) (int K) src (int i2) (int i1) (int (2 * ?q)) ?buf
        = save_result A (slice_pair A (slice_values src (int M) (int K) (int i1) (int i2)))
            (int (2 * ?q)) ?buf"
    using M N K src by (intro slice_body_closed [where n = "int N"]) simp_all
  also have "\<dots> = Inr (?buf[2 * ?q := fst (new_pair A (int M) (int K) src old ?q),
                            2 * ?q + 1 := snd (new_pair A (int M) (int K) src old ?q)])"
    unfolding save_result_pair [OF lb] np ..
  finally show ?thesis unfolding expected_out_Suc [OF lq] .
qed

lemma i1_loop_closed:
  assumes N: "i2 < N" and K: "0 < K"
    and src: "int (length src) = int M * int K * int N"
    and old: "length old = 2 * M * N"
  shows "i1 \<le> M \<Longrightarrow>
         i1_loop A (int M) (int K) src (int i2) (int i1)
           (int (2 * (i2 * M + i1)), expected_out A (int M) (int K) src old (i2 * M + i1))
         = Inr (int (2 * (i2 * M + M)), expected_out A (int M) (int K) src old (i2 * M + M))"
proof (induction "M - i1" arbitrary: i1)
  case 0
  then have "i1 = M" by simp
  then show ?case by (subst i1_loop.simps) simp
next
  case (Suc d)
  then have lt: "i1 < M" and d: "d = M - Suc i1" and le: "Suc i1 \<le> M" by simp_all
  have a: "int (2 * (i2 * M + i1)) + 2 = int (2 * (i2 * M + Suc i1))" by simp
  have b: "Suc (i2 * M + i1) = i2 * M + Suc i1" by simp
  have c: "int i1 + 1 = int (Suc i1)" by simp
  show ?case
    apply (subst i1_loop.simps)
    apply (simp only: slice_step [OF lt N K src old] a b c)
    using lt Suc.hyps(1) [OF d le] apply simp
    done
qed

lemma i2_loop_closed:
  assumes K: "0 < K"
    and src: "int (length src) = int M * int K * int N"
    and old: "length old = 2 * M * N"
  shows "i2 \<le> N \<Longrightarrow>
         i2_loop A (int M) (int N) (int K) src (int i2)
           (int (2 * (i2 * M)), expected_out A (int M) (int K) src old (i2 * M))
         = Inr (int (2 * (N * M)), expected_out A (int M) (int K) src old (N * M))"
proof (induction "N - i2" arbitrary: i2)
  case 0
  then have "i2 = N" by simp
  then show ?case by (subst i2_loop.simps) simp
next
  case (Suc d)
  then have lt: "i2 < N" and d: "d = N - Suc i2" and le: "Suc i2 \<le> N" by simp_all
  have a: "i2 * M + M = Suc i2 * M" by simp
  have c: "int i2 + 1 = int (Suc i2)" by simp
  have z: "i2 * M = i2 * M + 0" by simp
  have s: "i1_loop A (int M) (int K) src (int i2) 0
           (int (2 * (i2 * M)), expected_out A (int M) (int K) src old (i2 * M))
         = Inr (int (2 * (Suc i2 * M)), expected_out A (int M) (int K) src old (Suc i2 * M))"
    using i1_loop_closed [OF lt K src old le0, of A] by (simp only: a add_0_right semiring_1_class.of_nat_0)
  show ?case
    apply (subst i2_loop.simps)
    apply (simp only: s c)
    using lt Suc.hyps(1) [OF d le] apply simp
    done
qed

lemma cpu_closed:
  assumes K: "0 < K"
    and src: "int (length src) = int M * int K * int N"
    and old: "length old = 2 * M * N"
  shows "cpu A (int M) (int N) (int K) src old
         = Inr (expected_out A (int M) (int K) src old (N * M))"
  using i2_loop_closed [OF K src old, of 0 A] by (simp add: cpu_def expected_out_zero)

lemma ieee_mask_subset:
  "ieee_mask A ninf xs \<Longrightarrow> set ys \<subseteq> set xs \<Longrightarrow> ieee_mask A ninf ys"
  by (auto simp: ieee_mask_def)

lemma slice_values_subset:
  assumes "0 \<le> i1" "i1 < m" "0 \<le> i2" "i2 < n" "int (length src) = m * k * n"
  shows "set (slice_values src m k i1 i2) \<subseteq> set src"
proof -
  have "src ! nat (i2 * (m * k) + i1 + int i0 * m) \<in> set src" if "i0 < nat k" for i0
  proof -
    have "0 \<le> int i0" "int i0 < k" using that by simp_all
    from slice_position [OF assms(1-4) this] assms(5)
    have "nat (i2 * (m * k) + i1 + int i0 * m) < length src" by simp
    then show ?thesis by (rule nth_mem)
  qed
  then show ?thesis by (auto simp: slice_values_def)
qed

lemma expected_out_nth:
  assumes "q < c" "2 * c \<le> length old"
  shows "expected_out A m k src old c ! (2 * q) = fst (new_pair A m k src old q)"
    and "expected_out A m k src old c ! (2 * q + 1) = snd (new_pair A m k src old q)"
  using assms by (simp_all add: expected_out_def)

text \<open>
  Claim C8, as amended.  For buffers of the documented sizes (\<open>m * k * n\<close> inputs with
  \<open>k \<ge> 1\<close>, \<open>2 * m * n\<close> outputs) whose input values are finite or negative infinity
  (no positive infinity and no NaN), in IEEE arithmetic (\<open>exp(-inf - x) = 0\<close>,
  \<open>-inf < x\<close> for finite \<open>x\<close>, \<open>1 * 0 + 1 = 1\<close>): the kernel returns, and for every slice
  \<open>(i1, i2)\<close> the pair it leaves at \<open>2 * (i2 * m + i1)\<close> is the old pair of the output
  accumulated with the (max, sumexp) pair computed over only the elements of the slice
  different from negative infinity, whatever their position in the slice (also first,
  where negative infinity is the running maximum); if every element of the slice is
  negative infinity the pair of the output is left as it was.
\<close>

theorem cpu_masks_negative_infinity:
  fixes m n k i1 i2 :: Index
  assumes k: "0 < k"
    and src: "int (length src) = m * k * n"
    and old: "int (length maxsumexp) = 2 * m * n"
    and ieee: "ieee_mask A ninf src"
    and i1: "0 \<le> i1" "i1 < m" and i2: "0 \<le> i2" "i2 < n"
  shows "\<exists>out. cpu A m n k src maxsumexp = Inr out \<and> length out = length maxsumexp
           \<and> (out ! nat (2 * (i2 * m + i1)), out ! nat (2 * (i2 * m + i1) + 1))
             = (if non_masked ninf (slice_values src m k i1 i2) = []
                then (maxsumexp ! nat (2 * (i2 * m + i1)),
                      maxsumexp ! nat (2 * (i2 * m + i1) + 1))
                else accumulate A (max_sumexp A (non_masked ninf (slice_values src m k i1 i2)))
                       (maxsumexp ! nat (2 * (i2 * m + i1)),
                        maxsumexp ! nat (2 * (i2 * m + i1) + 1)))"
proof -
  have "0 \<le> m" "0 \<le> n" "0 \<le> k" using k i1 i2 by simp_all
  then have "m = int (nat m)" "n = int (nat n)" "k = int (nat k)" "i1 = int (nat i1)"
    "i2 = int (nat i2)"
    using i1 i2 by simp_all
  then obtain M N K I1 I2 where c: "m = int M" "n = int N" "k = int K" "i1 = int I1" "i2 = int I2"
    by blast
  let ?q = "I2 * M + I1"
  let ?vals = "slice_values src m k i1 i2"
  let ?o = "(maxsumexp ! (2 * ?q), maxsumexp ! (2 * ?q + 1))"
  have K: "0 < K" and lt: "I1 < M" "I2 < N" using k i1 i2 c by simp_all
  have s: "int (length src) = int M * int K * int N" using src c by simp
  have o: "length maxsumexp = 2 * M * N"
  proof -
    have "int (length maxsumexp) = int (2 * M * N)" using old c by simp
    then show ?thesis by (simp only: of_nat_eq_iff)
  qed
  have r: "cpu A m n k src maxsumexp = Inr (expected_out A m k src maxsumexp (N * M))"
    unfolding c by (rule cpu_closed [OF K s o])
  have "?q < I2 * M + M" using lt by simp
  also have "\<dots> = (I2 + 1) * M" by simp
  also have "\<dots> \<le> N * M" using lt by (intro mult_right_mono) simp_all
  finally have q: "?q < N * M" .
  have l: "2 * (N * M) \<le> length maxsumexp" using o by (simp add: mult.commute)
  have off: "nat (2 * (i2 * m + i1)) = 2 * ?q" "nat (2 * (i2 * m + i1) + 1) = 2 * ?q + 1"
  proof -
    have "2 * (i2 * m + i1) = int (2 * ?q)" using c by simp
    then show "nat (2 * (i2 * m + i1)) = 2 * ?q" by (simp only: nat_int)
    have "2 * (i2 * m + i1) + 1 = int (2 * ?q + 1)" using c by simp
    then show "nat (2 * (i2 * m + i1) + 1) = 2 * ?q + 1" by (simp only: nat_int)
  qed
  have md: "int ?q mod m = i1" "int ?q div m = i2"
    using lt c by (simp_all add: zmod_int [symmetric] zdiv_int [symmetric])
  have np: "new_pair A m k src maxsumexp ?q
            = (if fp_isinf A (fst (slice_pair A ?vals)) then ?o
               else accumulate A (slice_pair A ?vals) ?o)"
    by (simp only: new_pair_def md Let_def)
  have im: "ieee_mask A ninf ?vals"
    using ieee slice_values_subset [OF i1 i2 src] by (rule ieee_mask_subset)
  have ne: "?vals \<noteq> []" using k by (simp add: slice_values_def)
  have pair: "new_pair A m k src maxsumexp ?q
              = (if non_masked ninf ?vals = [] then ?o
                 else accumulate A (max_sumexp A (non_masked ninf ?vals)) ?o)"
  proof (cases "non_masked ninf ?vals = []")
    case True
    then have "fp_isinf A (fst (slice_pair A ?vals))"
      using slice_pair_masked(2) [OF im ne] by (simp add: non_masked_def)
    then show ?thesis using True by (simp add: np)
  next
    case False
    then have f: "filter (\<lambda>x. x \<noteq> ninf) ?vals \<noteq> []" by (simp add: non_masked_def)
    note sp = slice_pair_masked(3) [OF im ne f]
    have a: "slice_pair A ?vals = max_sumexp A (non_masked ninf ?vals)"
      unfolding non_masked_def using sp by (rule conjunct1)
    have b: "\<not> fp_isinf A (fst (slice_pair A ?vals))"
      using sp by (rule conjunct2)
    show ?thesis unfolding np using False b by (simp only: if_False a)
  qed
  have "(expected_out A m k src maxsumexp (N * M) ! (2 * ?q),
         expected_out A m k src maxsumexp (N * M) ! (2 * ?q + 1))
        = new_pair A m k src maxsumexp ?q"
    by (simp only: expected_out_nth [OF q l] prod.collapse)
  then show ?thesis
    unfolding r off pair by (intro exI [of _ "expected_out A m k src maxsumexp (N * M)"]) simp
qed

theorem cpu_masks_negative_infinity_witness:
  "ieee_mask extended_reals NInf [NInf, NInf, Fin 3, NInf]
   \<and> cpu extended_reals 2 1 2 [NInf, NInf, Fin 3, NInf] [Fin 0, Fin 0, Fin 5, Fin 7]
       = Inr [Fin 3, Fin 1, Fin 5, Fin 7]
   \<and> non_masked NInf (slice_values [NInf, NInf, Fin 3, NInf] 2 2 0 0) = [Fin 3]
   \<and> non_masked NInf (slice_values [NInf, NInf, Fin 3, NInf] 2 2 1 0) = []
   \<and> (\<exists>out. cpu extended_reals 2 1 2 [NInf, NInf, Fin 3, NInf] [Fin 0, Fin 0, Fin 5, Fin 7]
              = Inr out
            \<and> (out ! 0, out ! 1) = accumulate extended_reals (max_sumexp extended_reals [Fin 3])
                                     (Fin 0, Fin 0)
            \<and> (out ! 2, out ! 3) = (Fin 5, Fin 7))"
proof -
  let ?src = "[NInf, NInf, Fin 3, NInf]"
  let ?old = "[Fin 0, Fin 0, Fin 5, Fin 7]"
  have h: "ieee_mask extended_reals NInf ?src"
    by (simp add: ieee_mask_def extended_reals_def)
  have r: "cpu extended_reals 2 1 2 ?src ?old = Inr [Fin 3, Fin 1, Fin 5, Fin 7]"
    by (simp add: cpu_def i2_loop.simps i1_loop.simps slice_body_def slice_loop.simps
        extended_reals_def Let_def)
  have v: "non_masked NInf (slice_values ?src 2 2 0 0) = [Fin 3]"
    "non_masked NInf (slice_values ?src 2 2 1 0) = []"
    by (simp_all add: non_masked_def slice_values_def numeral_2_eq_2)
  have a: "(\<exists>out. cpu extended_reals 2 1 2 ?src ?old = Inr out
            \<and> (out ! 0, out ! 1) = accumulate extended_reals (max_sumexp extended_reals [Fin 3])
                                     (Fin 0, Fin 0)
            \<and> (out ! 2, out ! 3) = (Fin 5, Fin 7))"
    using cpu_masks_negative_infinity [of 2 ?src 2 1 ?old extended_reals NInf 0 0, OF _ _ _ h]
      cpu_masks_negative_infinity [of 2 ?src 2 1 ?old extended_reals NInf 1 0, OF _ _ _ h]
    by (auto simp: v numeral_3_eq_3)
  from h r v a show ?thesis by simp
qed

text \<open>
  The claim as stated, for every slice, fails for a slice that holds positive infinity:
  \<open>std::isinf\<close> skips both infinities.  For the slice \<open>[-inf, +inf, 0]\<close> the kernel
  writes the pair \<open>(0, 1)\<close>, while the pair over the elements other than negative
  infinity, \<open>[+inf, 0]\<close>, has maximum \<open>+inf\<close>; and on the slice \<open>[+inf, 0]\<close> itself the
  kernel writes nothing.
\<close>

theorem cpu_masks_negative_infinity_counterexample:
  "cpu extended_reals 1 1 3 [NInf, PInf, Fin 0] [Fin 0, Fin 0] = Inr [Fin 0, Fin 1]
   \<and> non_masked NInf (slice_values [NInf, PInf, Fin 0] 1 3 0 0) = [PInf, Fin 0]
   \<and> accumulate extended_reals (max_sumexp extended_reals [PInf, Fin 0]) (Fin 0, Fin 0)
       = (PInf, Fin 1)
   \<and> cpu extended_reals 1 1 2 [PInf, Fin 0] [Fin 0, Fin 0] = Inr [Fin 0, Fin 0]"
proof -
  have "cpu extended_reals 1 1 3 [NInf, PInf, Fin 0] [Fin 0, Fin 0] = Inr [Fin 0, Fin 1]"
    by (simp add: cpu_def i2_loop.simps i1_loop.simps slice_body_def slice_loop.simps
        extended_reals_def Let_def)
  moreover have "non_masked NInf (slice_values [NInf, PInf, Fin 0] 1 3 0 0) = [PInf, Fin 0]"
    by (simp add: non_masked_def slice_values_def numeral_3_eq_3)
  moreover have "accumulate extended_reals (max_sumexp extended_reals [PInf, Fin 0])
                   (Fin 0, Fin 0) = (PInf, Fin 1)"
    by (simp add: max_sumexp_def extended_reals_def)
  moreover have "cpu extended_reals 1 1 2 [PInf, Fin 0] [Fin 0, Fin 0] = Inr [Fin 0, Fin 0]"
    by (simp add: cpu_def i2_loop.simps i1_loop.simps slice_body_def slice_loop.simps
        extended_reals_def Let_def)
  ultimately show ?thesis by simp
qed

end
